theory Spec2Isabelle
  imports Complex_Main "HOL-Library.Sublist"
begin

section \<open>Data model\<close>

text \<open>
  The library API keeps two MongoDB collections through mongoose models: books
  (\<^verbatim>\<open>models/book.js\<close>) and borrowings (\<^verbatim>\<open>models/borrowing.js\<close>). The resolvers
  live in two files of the repository: the resolvers with \<^verbatim>\<open>AppError\<close> codes, an ownership check
  on return, \<^verbatim>\<open>searchBooks\<close> and \<^verbatim>\<open>daysOverdue\<close> (called the coded resolvers below), and an
  earlier variant that throws plain \<^verbatim>\<open>Error\<close>s (called the plain resolvers; its functions
  carry the suffix \<open>0\<close> here).

  An \<^verbatim>\<open>ObjectId\<close> is opaque; it is a natural number here. A GraphQL \<^verbatim>\<open>ID\<close> argument is a
  string that mongoose either accepts as the text of an ObjectId
  (\<^verbatim>\<open>mongoose.Types.ObjectId.isValid\<close>) or not: \<open>Oid n\<close> is an id string denoting the ObjectId
  \<open>n\<close> (in the form \<^verbatim>\<open>toString()\<close> prints), \<open>Malformed\<close> any other string.
  A \<^verbatim>\<open>Date\<close> is its number of milliseconds since the epoch.
\<close>

type_synonym ObjectId = nat

datatype ID = Oid ObjectId | Malformed

type_synonym Date = int

text \<open>
  \<^verbatim>\<open>context.userId\<close> is \<^verbatim>\<open>decoded.userId\<close> of a verified bearer token and \<^verbatim>\<open>null\<close>
  otherwise; \<open>None\<close> is every falsy value of it.
\<close>

record Context =
  userId :: "ID option"

text \<open>The GraphQL input type \<^verbatim>\<open>createBookInput\<close>; \<^verbatim>\<open>copies\<close> is an \<^verbatim>\<open>Int!\<close>.\<close>

record createBookInput =
  title :: string
  author :: string
  isbn :: string
  copies :: int
  category :: "string option"

text \<open>
  A JavaScript object, such as the one handed to \<^verbatim>\<open>Book.create\<close>, is a map from property
  names to values.
\<close>

datatype jsval = Str string | Num int | Id ObjectId

type_synonym object = "string \<rightharpoonup> jsval"

text \<open>
  A book document. The paths the resolvers read are fields: \<^verbatim>\<open>title\<close> and \<^verbatim>\<open>author\<close>
  (required strings), \<^verbatim>\<open>category\<close> and \<^verbatim>\<open>isbn\<close> (optional strings),
  \<^verbatim>\<open>availableCopies\<close> (a number with default 1). Whatever other properties the document
  was created with are its \<open>others\<close>. The copy counts of this program are integers far
  below \<open>2 ^ 53\<close>, where JavaScript numbers are exact, so \<^verbatim>\<open>availableCopies\<close> is an
  \<open>int\<close>.
\<close>

record Book =
  Book_id :: ObjectId
  title :: string
  author :: string
  category :: "string option"
  isbn :: "string option"
  availableCopies :: int
  others :: object

definition Book_fields :: "string list" where
  "Book_fields = [''title'', ''author'', ''category'', ''isbn'', ''availableCopies'']"

text \<open>
  \<^verbatim>\<open>borrowingSchema\<close>; the field \<^verbatim>\<open>member\<close> is \<open>member'\<close> here, apart from the list
  function of that name.
\<close>

record Borrowing =
  Borrowing_id :: ObjectId
  member' :: ObjectId
  book :: ObjectId
  borrowDate :: Date
  returnDate :: "Date option"
  returned :: bool

text \<open>
  The database: both collections in insertion order, and the source of fresh ObjectIds
  (the driver generates a new, unused \<^verbatim>\<open>_id\<close> for every created document).
\<close>

record db =
  books :: "Book list"
  borrowings :: "Borrowing list"
  nextId :: ObjectId

definition empty_db :: db where
  "empty_db = \<lparr>books = [], borrowings = [], nextId = 0\<rparr>"

text \<open>
  What a resolver throws: an \<^verbatim>\<open>AppError\<close> with its code (the coded resolvers), a plain
  \<^verbatim>\<open>Error\<close> with its message, or an exception of mongoose or of the runtime (the plain
  resolvers let these through).
\<close>

datatype code =
    UNAUTHENTICATED | INVALID_ID | INVALID_INPUT | INVALID_COPIES | ISBN_EXISTS
  | ADD_BOOK_ERROR | BOOK_NOT_FOUND | NO_COPIES_AVAILABLE | ALREADY_BORROWED
  | BORROW_BOOK_ERROR | BORROWING_NOT_FOUND | UNAUTHORIZED | ALREADY_RETURNED
  | RETURN_BOOK_ERROR | SEARCH_BOOKS_ERROR

datatype error =
  AppError code | Error string | CastError | TypeError | ValidationError | MongoServerError

text \<open>A mutation returns what it resolves to or throws, together with the database it leaves.\<close>

type_synonym 'a outcome = "(error + 'a) \<times> db"

section \<open>Model operations of mongoose\<close>

definition Book_findById :: "ObjectId \<Rightarrow> db \<Rightarrow> Book option" where
  "Book_findById i s = find (\<lambda>b. Book_id b = i) (books s)"

definition Book_findOne_isbn :: "string \<Rightarrow> db \<Rightarrow> Book option" where
  "Book_findOne_isbn i s = find (\<lambda>b. Book.isbn b = Some i) (books s)"

definition Borrowing_findById :: "ObjectId \<Rightarrow> db \<Rightarrow> Borrowing option" where
  "Borrowing_findById i s = find (\<lambda>r. Borrowing_id r = i) (borrowings s)"

text \<open>\<^verbatim>\<open>Borrowing.findOne({ member, book, returned })\<close>.\<close>

definition Borrowing_findOne :: "ObjectId \<Rightarrow> ObjectId \<Rightarrow> bool \<Rightarrow> db \<Rightarrow> Borrowing option" where
  "Borrowing_findOne m b r s =
     find (\<lambda>x. member' x = m \<and> book x = b \<and> returned x = r) (borrowings s)"

text \<open>
  \<^verbatim>\<open>Borrowing.create({ book, member, borrowDate, returned })\<close>: the document gets a fresh
  \<^verbatim>\<open>_id\<close> and no \<^verbatim>\<open>returnDate\<close>.
\<close>

definition Borrowing_create ::
  "ObjectId \<Rightarrow> ObjectId \<Rightarrow> Date \<Rightarrow> bool \<Rightarrow> db \<Rightarrow> Borrowing \<times> db" where
  "Borrowing_create b m d r s =
     (let doc = \<lparr>Borrowing_id = nextId s, member' = m, book = b, borrowDate = d,
                 returnDate = None, returned = r\<rparr>
      in (doc, s\<lparr>borrowings := borrowings s @ [doc], nextId := Suc (nextId s)\<rparr>))"

text \<open>
  \<^verbatim>\<open>book.save()\<close> after \<^verbatim>\<open>book.availableCopies\<close> was assigned: mongoose writes the modified
  path of the document with that \<^verbatim>\<open>_id\<close>.
\<close>

definition Book_save :: "Book \<Rightarrow> db \<Rightarrow> db" where
  "Book_save doc s =
     s\<lparr>books := map (\<lambda>b. if Book_id b = Book_id doc
                          then b\<lparr>availableCopies := availableCopies doc\<rparr> else b) (books s)\<rparr>"

text \<open>
  \<^verbatim>\<open>borrowing.save()\<close> after \<^verbatim>\<open>returned\<close> and \<^verbatim>\<open>returnDate\<close> were assigned.
\<close>

definition Borrowing_save :: "Borrowing \<Rightarrow> db \<Rightarrow> db" where
  "Borrowing_save doc s =
     s\<lparr>borrowings := map (\<lambda>r. if Borrowing_id r = Borrowing_id doc
                               then r\<lparr>returned := returned doc, returnDate := returnDate doc\<rparr>
                               else r) (borrowings s)\<rparr>"

section \<open>The coded resolvers\<close>

text \<open>
  \<^verbatim>\<open>borrowBook\<close>. The steps are those of the source, in its order; the case of a
  malformed \<^verbatim>\<open>bookId\<close> is the check of \<^verbatim>\<open>ObjectId.isValid\<close>. A truthy \<^verbatim>\<open>userId\<close> that is
  no ObjectId makes the query of \<^verbatim>\<open>Borrowing.findOne\<close> throw a cast error, which the
  \<^verbatim>\<open>catch\<close> turns into \<^verbatim>\<open>BORROW_BOOK_ERROR\<close>.
\<close>

definition borrowBook :: "Context \<Rightarrow> ID \<Rightarrow> Date \<Rightarrow> db \<Rightarrow> Borrowing outcome" where
  "borrowBook context bookId now s =
     (case userId context of
        None \<Rightarrow> (Inl (AppError UNAUTHENTICATED), s)
      | Some uid \<Rightarrow>
     (case bookId of
        Malformed \<Rightarrow> (Inl (AppError INVALID_ID), s)
      | Oid bid \<Rightarrow>
     (case Book_findById bid s of
        None \<Rightarrow> (Inl (AppError BOOK_NOT_FOUND), s)
      | Some bookDoc \<Rightarrow>
          if availableCopies bookDoc \<le> 0 then (Inl (AppError NO_COPIES_AVAILABLE), s)
          else
     (case uid of
        Malformed \<Rightarrow> (Inl (AppError BORROW_BOOK_ERROR), s)
      | Oid mid \<Rightarrow>
     (case Borrowing_findOne mid bid False s of
        Some existingBorrowing \<Rightarrow> (Inl (AppError ALREADY_BORROWED), s)
      | None \<Rightarrow>
          let (newBorrowing, s1) = Borrowing_create bid mid now False s;
              bookDoc' = bookDoc\<lparr>availableCopies := availableCopies bookDoc - 1\<rparr>
          in (Inr newBorrowing, Book_save bookDoc' s1))))))"

text \<open>
  \<^verbatim>\<open>returnBook\<close>. The borrowing is saved before the book is looked up, so a missing book
  (\<^verbatim>\<open>book.availableCopies\<close> on \<^verbatim>\<open>null\<close>, rethrown as \<^verbatim>\<open>RETURN_BOOK_ERROR\<close>) leaves the
  borrowing returned.
\<close>

definition returnBook :: "Context \<Rightarrow> ID \<Rightarrow> Date \<Rightarrow> db \<Rightarrow> Borrowing outcome" where
  "returnBook context borrowingId now s =
     (case userId context of
        None \<Rightarrow> (Inl (AppError UNAUTHENTICATED), s)
      | Some uid \<Rightarrow>
     (case borrowingId of
        Malformed \<Rightarrow> (Inl (AppError INVALID_ID), s)
      | Oid rid \<Rightarrow>
     (case Borrowing_findById rid s of
        None \<Rightarrow> (Inl (AppError BORROWING_NOT_FOUND), s)
      | Some borrowing \<Rightarrow>
          if Oid (member' borrowing) \<noteq> uid then (Inl (AppError UNAUTHORIZED), s)
          else if returned borrowing then (Inl (AppError ALREADY_RETURNED), s)
          else
            let borrowing' = borrowing\<lparr>returned := True, returnDate := Some now\<rparr>;
                s1 = Borrowing_save borrowing' s
            in (case Book_findById (book borrowing') s1 of
                  None \<Rightarrow> (Inl (AppError RETURN_BOOK_ERROR), s1)
                | Some bookDoc \<Rightarrow>
                    (Inr borrowing',
                     Book_save (bookDoc\<lparr>availableCopies := availableCopies bookDoc + 1\<rparr>) s1)))))"

subsection \<open>Creating a book\<close>

fun asString :: "jsval option \<Rightarrow> string option" where
  "asString (Some (Str v)) = Some v"
| "asString _ = None"

fun asNumber :: "jsval option \<Rightarrow> int option" where
  "asNumber (Some (Num v)) = Some v"
| "asNumber _ = None"

text \<open>The paths of \<^verbatim>\<open>bookSchema\<close> (\<^verbatim>\<open>models/book.js\<close>).\<close>

definition bookSchema :: "string list" where
  "bookSchema = [''title'', ''author'', ''category'', ''isbn'', ''availableCopies'']"

text \<open>
  \<^verbatim>\<open>Book.create(obj)\<close>. Schemas are strict: a property that is no path of the schema is
  not set on the document, and the document keeps what is left, the fields and the
  \<open>others\<close>. \<^verbatim>\<open>title\<close> and \<^verbatim>\<open>author\<close> are required (an empty string fails the
  validator), \<^verbatim>\<open>isbn\<close> has a unique index (a missing value is indexed too),
  \<^verbatim>\<open>availableCopies\<close> defaults to 1. The resolvers pass strings and numbers as the GraphQL
  input types fix them; a value of another type counts as absent here.
\<close>

definition Book_create :: "object \<Rightarrow> db \<Rightarrow> Book outcome" where
  "Book_create obj s =
     (let doc = obj |` set bookSchema in
      case (asString (doc ''title''), asString (doc ''author'')) of
        (Some t, Some a) \<Rightarrow>
          if t = [] \<or> a = [] then (Inl ValidationError, s)
          else if \<exists>b \<in> set (books s). Book.isbn b = asString (doc ''isbn'')
          then (Inl MongoServerError, s)
          else
            let newBook = \<lparr>Book_id = nextId s, title = t, author = a,
                           category = asString (doc ''category''),
                           isbn = asString (doc ''isbn''),
                           availableCopies =
                             (case asNumber (doc ''availableCopies'') of
                                Some n \<Rightarrow> n | None \<Rightarrow> 1),
                           others = doc |` (- set Book_fields)\<rparr>
            in (Inr newBook, s\<lparr>books := books s @ [newBook], nextId := Suc (nextId s)\<rparr>)
      | _ \<Rightarrow> (Inl ValidationError, s))"

text \<open>
  The stored document of a book, property by property (\<^verbatim>\<open>__v\<close> is mongoose's version
  key). A field of the GraphQL type \<^verbatim>\<open>Book\<close> resolves to the property of its name.
\<close>

definition Book_toObject :: "Book \<Rightarrow> object" where
  "Book_toObject b =
     (others b ++
      (case category b of None \<Rightarrow> Map.empty | Some c \<Rightarrow> [''category'' \<mapsto> Str c]) ++
      (case Book.isbn b of None \<Rightarrow> Map.empty | Some i \<Rightarrow> [''isbn'' \<mapsto> Str i]))
     (''_id'' \<mapsto> Id (Book_id b), ''title'' \<mapsto> Str (Book.title b),
      ''author'' \<mapsto> Str (Book.author b), ''availableCopies'' \<mapsto> Num (availableCopies b),
      ''__v'' \<mapsto> Num 0)"

text \<open>The \<^verbatim>\<open>input\<close> argument as an object; an omitted \<^verbatim>\<open>category\<close> is no property.\<close>

definition input_object :: "createBookInput \<Rightarrow> object" where
  "input_object input =
     (case createBookInput.category input of
        None \<Rightarrow> Map.empty | Some c \<Rightarrow> [''category'' \<mapsto> Str c])
     (''title'' \<mapsto> Str (createBookInput.title input),
      ''author'' \<mapsto> Str (createBookInput.author input),
      ''isbn'' \<mapsto> Str (createBookInput.isbn input),
      ''copies'' \<mapsto> Num (copies input))"

text \<open>\<^verbatim>\<open>{ ...input, availableCopies: copies, totalCopies: copies }\<close>\<close>

definition addBook_object :: "createBookInput \<Rightarrow> object" where
  "addBook_object input =
     (input_object input)
     (''availableCopies'' \<mapsto> Num (copies input), ''totalCopies'' \<mapsto> Num (copies input))"

text \<open>
  \<^verbatim>\<open>addBook\<close>. \<^verbatim>\<open>!title\<close> holds of the empty string and \<^verbatim>\<open>!copies\<close> of 0. An error of
  \<^verbatim>\<open>Book.create\<close> is rethrown as \<^verbatim>\<open>ADD_BOOK_ERROR\<close>.
\<close>

definition addBook :: "Context \<Rightarrow> createBookInput \<Rightarrow> db \<Rightarrow> Book outcome" where
  "addBook context input s =
     (case userId context of
        None \<Rightarrow> (Inl (AppError UNAUTHENTICATED), s)
      | Some uid \<Rightarrow>
          if createBookInput.title input = [] \<or> createBookInput.author input = []
             \<or> createBookInput.isbn input = [] \<or> copies input = 0
          then (Inl (AppError INVALID_INPUT), s)
          else if copies input < 1 then (Inl (AppError INVALID_COPIES), s)
          else
     (case Book_findOne_isbn (createBookInput.isbn input) s of
        Some existingBook \<Rightarrow> (Inl (AppError ISBN_EXISTS), s)
      | None \<Rightarrow>
     (case Book_create (addBook_object input) s of
        (Inl e, s') \<Rightarrow> (Inl (AppError ADD_BOOK_ERROR), s')
      | (Inr newBook, s') \<Rightarrow> (Inr newBook, s'))))"

subsection \<open>Overdue days\<close>

text \<open>
  The field resolver \<^verbatim>\<open>Borrowing.daysOverdue\<close>; \<open>today\<close> is the clock reading of
  \<^verbatim>\<open>new Date()\<close>. The quotient is a real number here: for the dates a clock yields the
  double-precision quotient has the same ceiling.
\<close>

definition daysOverdue :: "Borrowing \<Rightarrow> Date \<Rightarrow> int" where
  "daysOverdue parent today =
     (if \<not> returned parent then
        let diffTime = \<bar>today - borrowDate parent\<bar>;
            diffDays = \<lceil>real_of_int diffTime / (1000 * 60 * 60 * 24)\<rceil>
        in if diffDays > 14 then diffDays - 14 else 0
      else 0)"

subsection \<open>Searching\<close>

text \<open>
  \<^verbatim>\<open>searchBooks\<close> hands the query to MongoDB as the pattern of a \<^verbatim>\<open>$regex\<close> with option
  \<^verbatim>\<open>i\<close>: a book is found when the pattern, read as a Perl-compatible regular expression
  without regard to case, matches somewhere in its title or its author. A pattern that does not
  compile makes \<^verbatim>\<open>Book.find\<close> throw, which the \<^verbatim>\<open>catch\<close> turns into
  \<^verbatim>\<open>SEARCH_BOOKS_ERROR\<close>.

  The core of the pattern syntax is modelled here: ordinary characters, the dot, alternation,
  groups and the quantifiers \<^verbatim>\<open>*\<close>, \<^verbatim>\<open>+\<close>, \<^verbatim>\<open>?\<close>.
\<close>

datatype regex = Empty | Lit char | AnyChar | Seq regex regex | Alt regex regex | Star regex

text \<open>
  What the compiler makes of a pattern: an expression of the core, an error, or a pattern
  with syntax beyond the core (a backslash, an anchor, a character class, a counted repetition,
  a group that opens with \<^verbatim>\<open>(?\<close> or \<^verbatim>\<open>(*\<close>, a quantifier after a quantifier).
\<close>

datatype compiled = Core regex | Invalid | Other

definition beyond_chars :: "char list" where
  "beyond_chars = [CHR 0x5C, CHR ''^'', CHR ''$'', CHR ''['', CHR '']'', CHR ''{'', CHR ''}'']"

definition quantifiers :: "char list" where
  "quantifiers = [CHR ''*'', CHR ''+'', CHR ''?'']"

fun beyond_core :: "string \<Rightarrow> bool" where
  "beyond_core [] = False"
| "beyond_core [c] = (c \<in> set beyond_chars)"
| "beyond_core (c # d # cs) =
     (c \<in> set beyond_chars \<or> (c = CHR ''('' \<and> d \<in> set [CHR ''?'', CHR ''*'']) \<or>
      (c \<in> set quantifiers \<and> d \<in> set quantifiers) \<or> beyond_core (d # cs))"

fun seq_of :: "regex list \<Rightarrow> regex" where
  "seq_of [] = Empty"
| "seq_of (a # as) = Seq a (seq_of as)"

fun alt_of :: "regex list \<Rightarrow> regex" where
  "alt_of [] = Empty"
| "alt_of [b] = b"
| "alt_of (b # bs) = Alt b (alt_of bs)"

text \<open>
  The compiler reads the pattern from left to right. A frame holds the finished branches of
  the group being read and the items of its current branch, both latest first; \<open>outer\<close>
  are the frames of the groups around it. A closing parenthesis without an opening one, an
  opening one left open and a quantifier with nothing to repeat are errors.
\<close>

type_synonym frame = "regex list \<times> regex list"

definition close_frame :: "frame \<Rightarrow> regex" where
  "close_frame f = (case f of (bs, as) \<Rightarrow> alt_of (rev (seq_of (rev as) # bs)))"

definition quantify :: "char \<Rightarrow> regex \<Rightarrow> regex" where
  "quantify q a =
     (if q = CHR ''*'' then Star a else if q = CHR ''+'' then Seq a (Star a) else Alt a Empty)"

fun scan :: "string \<Rightarrow> frame \<Rightarrow> frame list \<Rightarrow> compiled" where
  "scan [] f outer = (if outer = [] then Core (close_frame f) else Invalid)"
| "scan (c # cs) (bs, as) outer =
     (if c = CHR ''('' then scan cs ([], []) ((bs, as) # outer)
      else if c = CHR '')'' then
        (case outer of
           [] \<Rightarrow> Invalid
         | (bs', as') # outer' \<Rightarrow> scan cs (bs', close_frame (bs, as) # as') outer')
      else if c = CHR ''|'' then scan cs (seq_of (rev as) # bs, []) outer
      else if c \<in> set quantifiers then
        (case as of
           [] \<Rightarrow> Invalid
         | a # as' \<Rightarrow> scan cs (bs, quantify c a # as') outer)
      else if c = CHR ''.'' then scan cs (bs, AnyChar # as) outer
      else scan cs (bs, Lit c # as) outer)"

definition compile :: "string \<Rightarrow> compiled" where
  "compile pattern = (if beyond_core pattern then Other else scan pattern ([], []) [])"

text \<open>Case folding of the letters \<^verbatim>\<open>A\<close> to \<^verbatim>\<open>Z\<close>.\<close>

definition toLower :: "char \<Rightarrow> char" where
  "toLower c =
     (let n = (of_char c :: nat) in if 65 \<le> n \<and> n \<le> 90 then char_of (n + 32) else c)"

text \<open>
  \<open>rests re cs\<close> are the rests of \<open>cs\<close> after each way \<open>re\<close> matches at its start.
  A character of the pattern matches itself in either case, the dot any character but a
  newline. A repetition goes on only from a rest that is shorter.
\<close>

fun rests :: "regex \<Rightarrow> string \<Rightarrow> string list" where
  "rests Empty cs = [cs]"
| "rests (Lit c) cs =
     (case cs of [] \<Rightarrow> [] | d # ds \<Rightarrow> if toLower c = toLower d then [ds] else [])"
| "rests AnyChar cs =
     (case cs of [] \<Rightarrow> [] | d # ds \<Rightarrow> if d \<noteq> CHR 0x0A then [ds] else [])"
| "rests (Seq a b) cs = concat (map (rests b) (rests a cs))"
| "rests (Alt a b) cs = rests a cs @ rests b cs"
| "rests (Star a) cs =
     cs # concat (map (rests (Star a)) (filter (\<lambda>ds. length ds < length cs) (rests a cs)))"

text \<open>The pattern matches somewhere in the field: at its start, or somewhere in its tail.\<close>

fun regex_test :: "regex \<Rightarrow> string \<Rightarrow> bool" where
  "regex_test re [] = (rests re [] \<noteq> [])"
| "regex_test re (c # cs) = (rests re (c # cs) \<noteq> [] \<or> regex_test re cs)"

text \<open>
  MongoDB's regular expressions are no code of the repository. For a pattern beyond the core
  \<^verbatim>\<open>searchBooks\<close> takes what the engine gives: \<open>engine pattern\<close> is \<open>None\<close> when the
  pattern does not compile and otherwise the test of a field.
\<close>

type_synonym engine = "string \<Rightarrow> (string \<Rightarrow> bool) option"

definition searchBooks :: "engine \<Rightarrow> string \<Rightarrow> db \<Rightarrow> error + Book list" where
  "searchBooks engine query s =
     (case compile query of
        Core re \<Rightarrow>
          Inr (filter (\<lambda>b. regex_test re (Book.title b) \<or> regex_test re (Book.author b))
                 (books s))
      | Invalid \<Rightarrow> Inl (AppError SEARCH_BOOKS_ERROR)
      | Other \<Rightarrow>
          (case engine query of
             None \<Rightarrow> Inl (AppError SEARCH_BOOKS_ERROR)
           | Some matches \<Rightarrow>
               Inr (filter (\<lambda>b. matches (Book.title b) \<or> matches (Book.author b)) (books s))))"

text \<open>The characters with a meaning in the syntax of regular expressions.\<close>

definition regex_special :: "char list" where
  "regex_special =
     [CHR 0x5C, CHR ''^'', CHR ''$'', CHR ''.'', CHR ''|'', CHR ''?'', CHR ''*'', CHR ''+'',
      CHR ''('', CHR '')'', CHR ''['', CHR '']'', CHR ''{'', CHR ''}'']"

text \<open>
  The reading of a search the specification gives: the field contains the query as a
  substring, letters compared without case.
\<close>

definition contains_ci :: "string \<Rightarrow> string \<Rightarrow> bool" where
  "contains_ci query field = sublist (map toLower query) (map toLower field)"

text \<open>An engine that compiles no pattern.\<close>

definition no_engine :: engine where
  "no_engine pattern = None"

section \<open>The plain resolvers\<close>

text \<open>
  \<^verbatim>\<open>returnBook\<close> of the plain resolvers: no check of the id's form (\<^verbatim>\<open>findById\<close> throws a
  cast error on a malformed one) and no check of the borrowing's member.
\<close>

definition returnBook0 :: "Context \<Rightarrow> ID \<Rightarrow> Date \<Rightarrow> db \<Rightarrow> Borrowing outcome" where
  "returnBook0 context borrowingId now s =
     (case userId context of
        None \<Rightarrow> (Inl (Error ''Not authenticated''), s)
      | Some uid \<Rightarrow>
     (case borrowingId of
        Malformed \<Rightarrow> (Inl CastError, s)
      | Oid rid \<Rightarrow>
     (case Borrowing_findById rid s of
        None \<Rightarrow> (Inl (Error ''Borrowing record not found''), s)
      | Some borrowing \<Rightarrow>
          if returned borrowing then (Inl (Error ''Book already returned''), s)
          else
            let borrowing' = borrowing\<lparr>returned := True, returnDate := Some now\<rparr>;
                s1 = Borrowing_save borrowing' s
            in (case Book_findById (book borrowing') s1 of
                  None \<Rightarrow> (Inl TypeError, s1)
                | Some bookDoc \<Rightarrow>
                    (Inr borrowing',
                     Book_save (bookDoc\<lparr>availableCopies := availableCopies bookDoc + 1\<rparr>) s1)))))"

section \<open>Sequences of operations\<close>

text \<open>
  The requests of a sequential run. No \<^verbatim>\<open>totalCopies\<close> is stored with a book, so a run
  keeps beside the database the number of copies each book was created with: the
  \<^verbatim>\<open>copies\<close> of the \<^verbatim>\<open>addBook\<close> call that made it.
\<close>

datatype op =
    AddBook Context createBookInput
  | BorrowBook Context ID Date
  | ReturnBook Context ID Date

type_synonym totals = "ObjectId \<rightharpoonup> int"

fun step :: "op \<Rightarrow> db \<times> totals \<Rightarrow> db \<times> totals" where
  "step (AddBook c input) (s, totalCopies) =
     (case addBook c input s of
        (Inr newBook, s') \<Rightarrow> (s', totalCopies(Book_id newBook \<mapsto> copies input))
      | (Inl e, s') \<Rightarrow> (s', totalCopies))"
| "step (BorrowBook c bookId now) (s, totalCopies) =
     (snd (borrowBook c bookId now s), totalCopies)"
| "step (ReturnBook c borrowingId now) (s, totalCopies) =
     (snd (returnBook c borrowingId now s), totalCopies)"

definition run :: "op list \<Rightarrow> db \<times> totals" where
  "run ops = fold step ops (empty_db, Map.empty)"

text \<open>Repeated \<^verbatim>\<open>returnBook\<close> calls on one borrowing, each by some caller at some time.\<close>

fun returnBook_calls :: "ID \<Rightarrow> (Context \<times> Date) list \<Rightarrow> db \<Rightarrow> db" where
  "returnBook_calls borrowingId [] s = s"
| "returnBook_calls borrowingId ((c, now) # calls) s =
     returnBook_calls borrowingId calls (snd (returnBook c borrowingId now s))"

section \<open>Consistency of the database\<close>

text \<open>The active borrowings of a book.\<close>

definition active_count :: "ObjectId \<Rightarrow> db \<Rightarrow> nat" where
  "active_count b s = length (filter (\<lambda>r. book r = b \<and> \<not> returned r) (borrowings s))"

text \<open>
  What a sequential run maintains: ids are unique and were handed out by the database, every
  borrowing is of a stored book, and the available copies of a book and its active borrowings
  add up to the copies it was created with.
\<close>

definition consistent :: "db \<times> totals \<Rightarrow> bool" where
  "consistent st =
     (case st of (s, totalCopies) \<Rightarrow>
        distinct (map Book_id (books s)) \<and>
        distinct (map Borrowing_id (borrowings s)) \<and>
        (\<forall>b \<in> set (books s). Book_id b < nextId s) \<and>
        (\<forall>r \<in> set (borrowings s). Borrowing_id r < nextId s) \<and>
        (\<forall>r \<in> set (borrowings s). \<exists>b \<in> set (books s). Book_id b = book r) \<and>
        (\<forall>b \<in> set (books s).
           0 \<le> availableCopies b \<and>
           totalCopies (Book_id b) =
             Some (availableCopies b + int (active_count (Book_id b) s))))"

section \<open>Interleaved borrow requests\<close>

text \<open>
  \<^verbatim>\<open>borrowBook\<close> awaits four database operations: \<^verbatim>\<open>Book.findById\<close>,
  \<^verbatim>\<open>Borrowing.findOne\<close>, \<^verbatim>\<open>Borrowing.create\<close> and \<^verbatim>\<open>book.save()\<close>. At each
  \<^verbatim>\<open>await\<close> another request may run. A task is a request of an authenticated member for a
  well-formed book id between two awaits, with the local documents it holds; a step runs it up
  to its next await.
\<close>

datatype task =
    Start
  | HaveBook Book
  | MayBorrow Book
  | Created Book Borrowing
  | Finished "error + Borrowing"

fun borrow_step :: "ObjectId \<Rightarrow> ObjectId \<Rightarrow> Date \<Rightarrow> task \<Rightarrow> db \<Rightarrow> task \<times> db" where
  "borrow_step mid bid now Start s =
     (case Book_findById bid s of
        None \<Rightarrow> (Finished (Inl (AppError BOOK_NOT_FOUND)), s)
      | Some bookDoc \<Rightarrow>
          if availableCopies bookDoc \<le> 0
          then (Finished (Inl (AppError NO_COPIES_AVAILABLE)), s)
          else (HaveBook bookDoc, s))"
| "borrow_step mid bid now (HaveBook bookDoc) s =
     (case Borrowing_findOne mid bid False s of
        Some existingBorrowing \<Rightarrow> (Finished (Inl (AppError ALREADY_BORROWED)), s)
      | None \<Rightarrow> (MayBorrow bookDoc, s))"
| "borrow_step mid bid now (MayBorrow bookDoc) s =
     (let (newBorrowing, s1) = Borrowing_create bid mid now False s
      in (Created (bookDoc\<lparr>availableCopies := availableCopies bookDoc - 1\<rparr>) newBorrowing, s1))"
| "borrow_step mid bid now (Created bookDoc newBorrowing) s =
     (Finished (Inr newBorrowing), Book_save bookDoc s)"
| "borrow_step mid bid now (Finished r) s = (Finished r, s)"

text \<open>
  Two requests for the same book; the schedule says which of them takes the next step
  (\<open>False\<close> the first, \<open>True\<close> the second).
\<close>

record request =
  req_member :: ObjectId
  req_now :: Date

fun interleave ::
  "ObjectId \<Rightarrow> request \<Rightarrow> request \<Rightarrow> bool list \<Rightarrow> task \<times> task \<times> db \<Rightarrow> task \<times> task \<times> db" where
  "interleave bid q1 q2 [] cfg = cfg"
| "interleave bid q1 q2 (False # sched) (t1, t2, s) =
     (let (t1', s') = borrow_step (req_member q1) bid (req_now q1) t1 s
      in interleave bid q1 q2 sched (t1', t2, s'))"
| "interleave bid q1 q2 (True # sched) (t1, t2, s) =
     (let (t2', s') = borrow_step (req_member q2) bid (req_now q2) t2 s
      in interleave bid q1 q2 sched (t1, t2', s'))"

text \<open>
  What a task holds between two awaits, for requests on the book \<open>bid\<close>: a loaded book
  with a copy available, then the created borrowing, which is stored.
\<close>

fun task_ok :: "ObjectId \<Rightarrow> db \<Rightarrow> task \<Rightarrow> bool" where
  "task_ok bid s Start = True"
| "task_ok bid s (HaveBook bookDoc) = (Book_id bookDoc = bid \<and> 0 < availableCopies bookDoc)"
| "task_ok bid s (MayBorrow bookDoc) = (Book_id bookDoc = bid \<and> 0 < availableCopies bookDoc)"
| "task_ok bid s (Created bookDoc newBorrowing) =
     (Book_id bookDoc = bid \<and> 0 \<le> availableCopies bookDoc \<and>
      newBorrowing \<in> set (borrowings s) \<and> book newBorrowing = bid \<and>
      \<not> returned newBorrowing)"
| "task_ok bid s (Finished (Inr newBorrowing)) =
     (newBorrowing \<in> set (borrowings s) \<and> book newBorrowing = bid \<and>
      \<not> returned newBorrowing)"
| "task_ok bid s (Finished (Inl e)) = True"

section \<open>Scenarios\<close>

text \<open>A catalog of one book with two copies, as \<^verbatim>\<open>addBook\<close> leaves it.\<close>

definition input_111 :: createBookInput where
  "input_111 =
     \<lparr>createBookInput.title = ''Dune'', createBookInput.author = ''Herbert'',
      createBookInput.isbn = ''111'', copies = 2, createBookInput.category = None\<rparr>"

definition librarian :: Context where
  "librarian = \<lparr>userId = Some (Oid 9)\<rparr>"

definition M1 :: Context where
  "M1 = \<lparr>userId = Some (Oid 1)\<rparr>"

definition M2 :: Context where
  "M2 = \<lparr>userId = Some (Oid 2)\<rparr>"

definition catalog_2 :: db where
  "catalog_2 = snd (addBook librarian input_111 empty_db)"

text \<open>A catalog of one book with one copy; then lent to member 1; then returned by member 1.\<close>

definition catalog_1 :: db where
  "catalog_1 = snd (addBook librarian (input_111\<lparr>copies := 1\<rparr>) empty_db)"

definition lent_1 :: db where
  "lent_1 = snd (borrowBook M1 (Oid 0) 1000 catalog_1)"

definition returned_1 :: db where
  "returned_1 = snd (returnBook M1 (Oid 1) 2000 lent_1)"

text \<open>An active borrowing dated at 1000 ms.\<close>

definition loan_20_days :: Borrowing where
  "loan_20_days =
     \<lparr>Borrowing_id = 1, member' = 1, book = 0, borrowDate = 1000,
      returnDate = None, returned = False\<rparr>"

text \<open>A book with two copies is added and member 1 borrows it.\<close>

definition ops_A :: "op list" where
  "ops_A = [AddBook librarian input_111, BorrowBook M1 (Oid 0) 1000]"

text \<open>A book with one copy is added.\<close>

definition ops_C :: "op list" where
  "ops_C = [AddBook librarian (input_111\<lparr>copies := 1\<rparr>)]"

text \<open>Two members ask for the one copy; their steps alternate.\<close>

definition request_1 :: request where
  "request_1 = \<lparr>req_member = 1, req_now = 1000\<rparr>"

definition request_2 :: request where
  "request_2 = \<lparr>req_member = 2, req_now = 1001\<rparr>"

definition alternating :: "bool list" where
  "alternating = [False, True, False, True, False, True, False, True]"

section \<open>Verification\<close>

subsection \<open>Lookups and saves\<close>

lemma find_SomeD: "find P xs = Some x \<Longrightarrow> P x \<and> x \<in> set xs"
  by (induction xs) (auto split: if_splits)

lemma find_map_upd:
  assumes "\<And>x. k (g x) = k x"
  shows "find (\<lambda>x. k x = i) (map (\<lambda>x. if k x = j then g x else x) xs) =
     (if i = j then map_option g (find (\<lambda>x. k x = i) xs) else find (\<lambda>x. k x = i) xs)"
  using assms by (induction xs) auto

lemma Book_findById_save:
  "Book_findById i (Book_save doc s) =
     (if i = Book_id doc
      then map_option (\<lambda>b. b\<lparr>availableCopies := availableCopies doc\<rparr>) (Book_findById i s)
      else Book_findById i s)"
  unfolding Book_findById_def Book_save_def
  by (simp add: find_map_upd)

lemma strict_others: "set bookSchema \<inter> - set Book_fields = {}"
  by (simp add: bookSchema_def Book_fields_def)

lemma Book_findById_id: "Book_findById i s = Some b \<Longrightarrow> Book_id b = i"
  unfolding Book_findById_def by (auto dest: find_SomeD)

lemma Borrowing_findById_id: "Borrowing_findById i s = Some r \<Longrightarrow> Borrowing_id r = i"
  unfolding Borrowing_findById_def by (auto dest: find_SomeD)

subsection \<open>The scenarios, evaluated\<close>

lemma catalog_2_eq:
  "catalog_2 =
     \<lparr>books = [\<lparr>Book_id = 0, title = ''Dune'', author = ''Herbert'', category = None,
                isbn = Some ''111'', availableCopies = 2,
                others = Map.empty\<rparr>],
      borrowings = [], nextId = 1\<rparr>"
  by (simp add: catalog_2_def librarian_def input_111_def addBook_def Book_findOne_isbn_def
        empty_db_def Book_create_def addBook_object_def input_object_def bookSchema_def Book_fields_def Let_def)

lemma catalog_1_eq:
  "catalog_1 =
     \<lparr>books = [\<lparr>Book_id = 0, title = ''Dune'', author = ''Herbert'', category = None,
                isbn = Some ''111'', availableCopies = 1,
                others = Map.empty\<rparr>],
      borrowings = [], nextId = 1\<rparr>"
  by (simp add: catalog_1_def librarian_def input_111_def addBook_def Book_findOne_isbn_def
        empty_db_def Book_create_def addBook_object_def input_object_def bookSchema_def Book_fields_def Let_def)

lemma lent_1_eq:
  "lent_1 =
     \<lparr>books = [\<lparr>Book_id = 0, title = ''Dune'', author = ''Herbert'', category = None,
                isbn = Some ''111'', availableCopies = 0,
                others = Map.empty\<rparr>],
      borrowings = [\<lparr>Borrowing_id = 1, member' = 1, book = 0, borrowDate = 1000,
                     returnDate = None, returned = False\<rparr>],
      nextId = 2\<rparr>"
  by (simp add: lent_1_def catalog_1_eq M1_def borrowBook_def Book_findById_def
        Borrowing_findOne_def Borrowing_create_def Book_save_def Let_def)

lemma returned_1_eq:
  "returned_1 =
     \<lparr>books = [\<lparr>Book_id = 0, title = ''Dune'', author = ''Herbert'', category = None,
                isbn = Some ''111'', availableCopies = 1,
                others = Map.empty\<rparr>],
      borrowings = [\<lparr>Borrowing_id = 1, member' = 1, book = 0, borrowDate = 1000,
                     returnDate = Some 2000, returned = True\<rparr>],
      nextId = 2\<rparr>"
  by (simp add: returned_1_def lent_1_eq M1_def returnBook_def Book_findById_def
        Borrowing_findById_def Borrowing_save_def Book_save_def Let_def)

lemma run_ops_A:
  "fst (run ops_A) =
     \<lparr>books = [\<lparr>Book_id = 0, title = ''Dune'', author = ''Herbert'', category = None,
                isbn = Some ''111'', availableCopies = 1,
                others = Map.empty\<rparr>],
      borrowings = [\<lparr>Borrowing_id = 1, member' = 1, book = 0, borrowDate = 1000,
                     returnDate = None, returned = False\<rparr>],
      nextId = 2\<rparr>"
  "snd (run ops_A) 0 = Some 2"
proof -
  have a: "addBook librarian input_111 empty_db = (Inr (hd (books catalog_2)), catalog_2)"
    by (simp add: catalog_2_eq librarian_def input_111_def addBook_def Book_findOne_isbn_def
          empty_db_def Book_create_def addBook_object_def input_object_def bookSchema_def Book_fields_def
          Let_def)
  have b: "snd (borrowBook M1 (Oid 0) 1000 catalog_2) =
     \<lparr>books = [\<lparr>Book_id = 0, title = ''Dune'', author = ''Herbert'', category = None,
                isbn = Some ''111'', availableCopies = 1,
                others = Map.empty\<rparr>],
      borrowings = [\<lparr>Borrowing_id = 1, member' = 1, book = 0, borrowDate = 1000,
                     returnDate = None, returned = False\<rparr>],
      nextId = 2\<rparr>"
    by (simp add: catalog_2_eq M1_def borrowBook_def Book_findById_def
          Borrowing_findOne_def Borrowing_create_def Book_save_def Let_def)
  have c: "copies input_111 = 2" "Book_id (hd (books catalog_2)) = 0"
    by (simp_all add: input_111_def catalog_2_eq)
  show "fst (run ops_A) =
     \<lparr>books = [\<lparr>Book_id = 0, title = ''Dune'', author = ''Herbert'', category = None,
                isbn = Some ''111'', availableCopies = 1,
                others = Map.empty\<rparr>],
      borrowings = [\<lparr>Borrowing_id = 1, member' = 1, book = 0, borrowDate = 1000,
                     returnDate = None, returned = False\<rparr>],
      nextId = 2\<rparr>"
    by (simp add: run_def ops_A_def a b)
  show "snd (run ops_A) 0 = Some 2"
    by (simp add: run_def ops_A_def a c)
qed

lemma run_ops_C: "fst (run ops_C) = catalog_1"
proof -
  have "addBook librarian (input_111\<lparr>copies := 1\<rparr>) empty_db =
      (Inr (hd (books catalog_1)), catalog_1)"
    by (simp add: catalog_1_eq librarian_def input_111_def addBook_def Book_findOne_isbn_def
          empty_db_def Book_create_def addBook_object_def input_object_def bookSchema_def Book_fields_def
          Let_def)
  then show ?thesis
    by (simp add: run_def ops_C_def)
qed

subsection \<open>Borrowing\<close>

text \<open>
  C1. For an authenticated member \<open>m\<close> and a book id \<open>b\<close>, \<^verbatim>\<open>borrowBook\<close> checks in this
  order that the book exists (else \<^verbatim>\<open>BOOK_NOT_FOUND\<close>), that it has a copy available (else
  \<^verbatim>\<open>NO_COPIES_AVAILABLE\<close>) and that \<open>m\<close> has no active borrowing of it (else
  \<^verbatim>\<open>ALREADY_BORROWED\<close>); a failure leaves the database as it was. When all three hold it
  creates one borrowing of \<open>b\<close> by \<open>m\<close> with \<^verbatim>\<open>returned = false\<close> and \<^verbatim>\<open>borrowDate\<close> now,
  and the book has one available copy less, every other book as before. It succeeds for
  no other input; an id that is no ObjectId is turned away as \<^verbatim>\<open>INVALID_ID\<close> before the
  book is looked up.
\<close>

theorem borrowBook_checks:
  "(Book_findById b s = None \<longrightarrow>
      borrowBook \<lparr>userId = Some (Oid m)\<rparr> (Oid b) now s = (Inl (AppError BOOK_NOT_FOUND), s)) \<and>
   (\<forall>bk. Book_findById b s = Some bk \<and> availableCopies bk \<le> 0 \<longrightarrow>
      borrowBook \<lparr>userId = Some (Oid m)\<rparr> (Oid b) now s =
        (Inl (AppError NO_COPIES_AVAILABLE), s)) \<and>
   (\<forall>bk. Book_findById b s = Some bk \<and> 0 < availableCopies bk \<and>
         (\<exists>r \<in> set (borrowings s). member' r = m \<and> book r = b \<and> \<not> returned r) \<longrightarrow>
      borrowBook \<lparr>userId = Some (Oid m)\<rparr> (Oid b) now s =
        (Inl (AppError ALREADY_BORROWED), s)) \<and>
   (\<forall>bk. Book_findById b s = Some bk \<and> 0 < availableCopies bk \<and>
         \<not> (\<exists>r \<in> set (borrowings s). member' r = m \<and> book r = b \<and> \<not> returned r) \<longrightarrow>
      (\<exists>r s'. borrowBook \<lparr>userId = Some (Oid m)\<rparr> (Oid b) now s = (Inr r, s') \<and>
         member' r = m \<and> book r = b \<and> \<not> returned r \<and> borrowDate r = now \<and>
         returnDate r = None \<and> borrowings s' = borrowings s @ [r] \<and>
         Book_findById b s' = Some (bk\<lparr>availableCopies := availableCopies bk - 1\<rparr>) \<and>
         (\<forall>b'. b' \<noteq> b \<longrightarrow> Book_findById b' s' = Book_findById b' s))) \<and>
   ((\<exists>r s'. borrowBook \<lparr>userId = Some (Oid m)\<rparr> bookId now s = (Inr r, s')) \<longleftrightarrow>
      (\<exists>b' bk. bookId = Oid b' \<and> Book_findById b' s = Some bk \<and> 0 < availableCopies bk \<and>
         \<not> (\<exists>r \<in> set (borrowings s). member' r = m \<and> book r = b' \<and> \<not> returned r))) \<and>
   borrowBook \<lparr>userId = Some (Oid m)\<rparr> Malformed now s = (Inl (AppError INVALID_ID), s)"
proof (intro conjI allI impI)
  show "borrowBook \<lparr>userId = Some (Oid m)\<rparr> (Oid b) now s = (Inl (AppError BOOK_NOT_FOUND), s)"
    if "Book_findById b s = None"
    using that by (simp add: borrowBook_def)
next
  fix bk
  assume "Book_findById b s = Some bk \<and> availableCopies bk \<le> 0"
  then show "borrowBook \<lparr>userId = Some (Oid m)\<rparr> (Oid b) now s =
      (Inl (AppError NO_COPIES_AVAILABLE), s)"
    by (simp add: borrowBook_def)
next
  fix bk
  assume "Book_findById b s = Some bk \<and> 0 < availableCopies bk \<and>
      (\<exists>r \<in> set (borrowings s). member' r = m \<and> book r = b \<and> \<not> returned r)"
  then show "borrowBook \<lparr>userId = Some (Oid m)\<rparr> (Oid b) now s =
      (Inl (AppError ALREADY_BORROWED), s)"
    by (auto simp add: borrowBook_def Borrowing_findOne_def find_None_iff split: option.splits)
next
  fix bk
  assume a: "Book_findById b s = Some bk \<and> 0 < availableCopies bk \<and>
      \<not> (\<exists>r \<in> set (borrowings s). member' r = m \<and> book r = b \<and> \<not> returned r)"
  then have id: "Book_id bk = b"
    by (auto dest: Book_findById_id)
  from a have none: "Borrowing_findOne m b False s = None"
    by (auto simp add: Borrowing_findOne_def find_None_iff)
  have other: "Book_findById i (s\<lparr>borrowings := rs, nextId := n\<rparr>) = Book_findById i s"
    for i rs n
    by (simp add: Book_findById_def)
  from a id none show "\<exists>r s'. borrowBook \<lparr>userId = Some (Oid m)\<rparr> (Oid b) now s = (Inr r, s') \<and>
      member' r = m \<and> book r = b \<and> \<not> returned r \<and> borrowDate r = now \<and>
      returnDate r = None \<and> borrowings s' = borrowings s @ [r] \<and>
      Book_findById b s' = Some (bk\<lparr>availableCopies := availableCopies bk - 1\<rparr>) \<and>
      (\<forall>b'. b' \<noteq> b \<longrightarrow> Book_findById b' s' = Book_findById b' s)"
    by (simp add: borrowBook_def Borrowing_create_def Let_def Book_findById_save other)
       (simp add: Book_save_def)
next
  show "(\<exists>r s'. borrowBook \<lparr>userId = Some (Oid m)\<rparr> bookId now s = (Inr r, s')) \<longleftrightarrow>
      (\<exists>b' bk. bookId = Oid b' \<and> Book_findById b' s = Some bk \<and> 0 < availableCopies bk \<and>
         \<not> (\<exists>r \<in> set (borrowings s). member' r = m \<and> book r = b' \<and> \<not> returned r))"
    by (cases bookId)
       (auto simp add: borrowBook_def Borrowing_findOne_def find_None_iff Borrowing_create_def
          Let_def dest: find_SomeD split: option.splits if_splits)
next
  show "borrowBook \<lparr>userId = Some (Oid m)\<rparr> Malformed now s = (Inl (AppError INVALID_ID), s)"
    by (simp add: borrowBook_def)
qed

theorem borrowBook_checks_witness:
  "Book_findById 0 empty_db = None \<and>
   borrowBook \<lparr>userId = Some (Oid 1)\<rparr> (Oid 0) 1000 empty_db =
     (Inl (AppError BOOK_NOT_FOUND), empty_db) \<and>
   Book_findById 0 lent_1 = Some (hd (books lent_1)) \<and>
   availableCopies (hd (books lent_1)) \<le> 0 \<and>
   borrowBook \<lparr>userId = Some (Oid 2)\<rparr> (Oid 0) 1000 lent_1 =
     (Inl (AppError NO_COPIES_AVAILABLE), lent_1) \<and>
   Book_findById 0 (fst (run ops_A)) = Some (hd (books (fst (run ops_A)))) \<and>
   0 < availableCopies (hd (books (fst (run ops_A)))) \<and>
   (\<exists>r \<in> set (borrowings (fst (run ops_A))). member' r = 1 \<and> book r = 0 \<and> \<not> returned r) \<and>
   borrowBook \<lparr>userId = Some (Oid 1)\<rparr> (Oid 0) 3000 (fst (run ops_A)) =
     (Inl (AppError ALREADY_BORROWED), fst (run ops_A)) \<and>
   Book_findById 0 catalog_2 = Some (hd (books catalog_2)) \<and>
   0 < availableCopies (hd (books catalog_2)) \<and>
   \<not> (\<exists>r \<in> set (borrowings catalog_2). member' r = 1 \<and> book r = 0 \<and> \<not> returned r) \<and>
   (\<exists>r s'. borrowBook \<lparr>userId = Some (Oid 1)\<rparr> (Oid 0) 1000 catalog_2 = (Inr r, s') \<and>
      member' r = 1 \<and> book r = 0 \<and> \<not> returned r \<and> borrowDate r = 1000 \<and>
      borrowings s' = borrowings catalog_2 @ [r] \<and>
      Book_findById 0 s' = Some ((hd (books catalog_2))\<lparr>availableCopies := 1\<rparr>))"
proof -
  have n: "Book_findById 0 empty_db = None"
    by (simp add: empty_db_def Book_findById_def)
  from borrowBook_checks [of 0 empty_db 1 1000] n
  have 1: "borrowBook \<lparr>userId = Some (Oid 1)\<rparr> (Oid 0) 1000 empty_db =
      (Inl (AppError BOOK_NOT_FOUND), empty_db)"
    by blast
  have z: "Book_findById 0 lent_1 = Some (hd (books lent_1))"
      "availableCopies (hd (books lent_1)) \<le> 0"
    by (simp_all add: lent_1_eq Book_findById_def)
  from borrowBook_checks [of 0 lent_1 2 1000] z
  have 2: "borrowBook \<lparr>userId = Some (Oid 2)\<rparr> (Oid 0) 1000 lent_1 =
      (Inl (AppError NO_COPIES_AVAILABLE), lent_1)"
    by blast
  have a: "Book_findById 0 (fst (run ops_A)) = Some (hd (books (fst (run ops_A))))"
      "0 < availableCopies (hd (books (fst (run ops_A))))"
      "\<exists>r \<in> set (borrowings (fst (run ops_A))). member' r = 1 \<and> book r = 0 \<and> \<not> returned r"
    by (simp_all add: run_ops_A Book_findById_def)
  from borrowBook_checks [of 0 "fst (run ops_A)" 1 3000] a
  have 3: "borrowBook \<lparr>userId = Some (Oid 1)\<rparr> (Oid 0) 3000 (fst (run ops_A)) =
      (Inl (AppError ALREADY_BORROWED), fst (run ops_A))"
    by blast
  have h: "Book_findById 0 catalog_2 = Some (hd (books catalog_2))"
      "0 < availableCopies (hd (books catalog_2))"
      "\<not> (\<exists>r \<in> set (borrowings catalog_2). member' r = 1 \<and> book r = 0 \<and> \<not> returned r)"
    by (simp_all add: catalog_2_eq Book_findById_def)
  have c: "availableCopies (hd (books catalog_2)) - 1 = 1"
    by (simp add: catalog_2_eq)
  from borrowBook_checks [of 0 catalog_2 1 1000] h c
  have 4: "\<exists>r s'. borrowBook \<lparr>userId = Some (Oid 1)\<rparr> (Oid 0) 1000 catalog_2 = (Inr r, s') \<and>
      member' r = 1 \<and> book r = 0 \<and> \<not> returned r \<and> borrowDate r = 1000 \<and>
      borrowings s' = borrowings catalog_2 @ [r] \<and>
      Book_findById 0 s' = Some ((hd (books catalog_2))\<lparr>availableCopies := 1\<rparr>)"
    by fastforce
  from n 1 z 2 a 3 h 4 show ?thesis
    by (intro conjI)
qed

subsection \<open>Returning\<close>

lemma returnBook_UNAUTHORIZED:
  assumes "Borrowing_findById rid s = Some r" and "uid \<noteq> Oid (member' r)"
  shows "returnBook \<lparr>userId = Some uid\<rparr> (Oid rid) now s = (Inl (AppError UNAUTHORIZED), s)"
  using assms by (auto simp add: returnBook_def)

lemma returnBook_Inr_owner:
  assumes "returnBook c borrowingId now s = (Inr r', s')"
  shows "\<exists>rid r. borrowingId = Oid rid \<and> Borrowing_findById rid s = Some r \<and>
           userId c = Some (Oid (member' r)) \<and> \<not> returned r \<and>
           r' = r\<lparr>returned := True, returnDate := Some now\<rparr>"
  using assms
  by (auto simp add: returnBook_def Let_def split: option.splits ID.splits if_splits)

lemma returnBook_failed_returned:
  assumes "Borrowing_findById rid s = Some r" and "returned r"
  shows "\<exists>e. returnBook c (Oid rid) now s = (Inl e, s)"
  using assms by (auto simp add: returnBook_def split: option.splits)

lemma returnBook_calls_returned:
  assumes "Borrowing_findById rid s = Some r" and "returned r"
  shows "returnBook_calls (Oid rid) calls s = s"
proof (induction calls)
  case Nil
  show ?case by simp
next
  case (Cons call calls)
  obtain c now where call: "call = (c, now)"
    by (cases call)
  from returnBook_failed_returned [OF assms] obtain e
    where "returnBook c (Oid rid) now s = (Inl e, s)"
    by blast
  with Cons call show ?case
    by simp
qed

text \<open>
  C3, the plain resolvers. Member 2 returns the borrowing of member 1: \<^verbatim>\<open>returnBook\<close> of the
  plain resolvers resolves, marks the borrowing returned and gives the copy back, where the
  coded \<^verbatim>\<open>returnBook\<close> fails with \<^verbatim>\<open>UNAUTHORIZED\<close> and changes nothing (for every
  borrowing and caller: \<open>returnBook_UNAUTHORIZED\<close>, \<open>returnBook_Inr_owner\<close>).
\<close>

theorem returnBook0_by_other_member:
  "returnBook0 M2 (Oid 1) 2000 lent_1 =
     (Inr \<lparr>Borrowing_id = 1, member' = 1, book = 0, borrowDate = 1000,
           returnDate = Some 2000, returned = True\<rparr>,
      returned_1) \<and>
   map availableCopies (books lent_1) = [0] \<and>
   map availableCopies (books returned_1) = [1] \<and>
   returnBook M2 (Oid 1) 2000 lent_1 = (Inl (AppError UNAUTHORIZED), lent_1)"
  by (simp add: lent_1_eq returned_1_eq M2_def returnBook0_def returnBook_def Book_findById_def
        Borrowing_findById_def Borrowing_save_def Book_save_def Let_def)

text \<open>
  C4, as amended. For a borrowing that is already returned, \<^verbatim>\<open>returnBook\<close> fails for every
  caller and leaves the database as it was: with \<^verbatim>\<open>ALREADY_RETURNED\<close> for the member who owns
  the borrowing, with \<^verbatim>\<open>UNAUTHORIZED\<close> for any other authenticated caller (the ownership check
  comes first). So no sequence of return calls on the borrowing changes the database, and its
  copy is given back only once. The plain \<^verbatim>\<open>returnBook\<close> fails with
  \<^verbatim>\<open>Book already returned\<close> for every authenticated caller.
\<close>

theorem returnBook_returned:
  assumes "Borrowing_findById rid s = Some r" and "returned r"
  shows "returnBook \<lparr>userId = Some (Oid (member' r))\<rparr> (Oid rid) now s =
           (Inl (AppError ALREADY_RETURNED), s) \<and>
         (\<forall>uid. uid \<noteq> Oid (member' r) \<longrightarrow>
            returnBook \<lparr>userId = Some uid\<rparr> (Oid rid) now s = (Inl (AppError UNAUTHORIZED), s)) \<and>
         (\<forall>c. \<exists>e. returnBook c (Oid rid) now s = (Inl e, s)) \<and>
         (\<forall>calls. returnBook_calls (Oid rid) calls s = s) \<and>
         (\<forall>uid. returnBook0 \<lparr>userId = Some uid\<rparr> (Oid rid) now s =
            (Inl (Error ''Book already returned''), s))"
proof (intro conjI allI impI)
  show "returnBook \<lparr>userId = Some (Oid (member' r))\<rparr> (Oid rid) now s =
      (Inl (AppError ALREADY_RETURNED), s)"
    using assms by (simp add: returnBook_def)
next
  fix uid
  assume "uid \<noteq> Oid (member' r)"
  with assms(1) show "returnBook \<lparr>userId = Some uid\<rparr> (Oid rid) now s =
      (Inl (AppError UNAUTHORIZED), s)"
    by (rule returnBook_UNAUTHORIZED)
next
  fix c
  show "\<exists>e. returnBook c (Oid rid) now s = (Inl e, s)"
    using assms by (rule returnBook_failed_returned)
next
  fix calls
  show "returnBook_calls (Oid rid) calls s = s"
    using assms by (rule returnBook_calls_returned)
next
  fix uid
  show "returnBook0 \<lparr>userId = Some uid\<rparr> (Oid rid) now s =
      (Inl (Error ''Book already returned''), s)"
    using assms by (simp add: returnBook0_def)
qed

theorem returnBook_returned_witness:
  "Borrowing_findById 1 returned_1 = Some (hd (borrowings returned_1)) \<and>
   returned (hd (borrowings returned_1)) \<and>
   returnBook M1 (Oid 1) 3000 returned_1 = (Inl (AppError ALREADY_RETURNED), returned_1) \<and>
   returnBook_calls (Oid 1) [(M1, 3000), (M2, 4000), (M1, 5000)] returned_1 = returned_1"
proof -
  have h1: "Borrowing_findById 1 returned_1 = Some (hd (borrowings returned_1))"
    by (simp add: returned_1_eq Borrowing_findById_def)
  have h2: "returned (hd (borrowings returned_1))"
    by (simp add: returned_1_eq)
  have m: "M1 = \<lparr>userId = Some (Oid (member' (hd (borrowings returned_1))))\<rparr>"
    by (simp add: returned_1_eq M1_def)
  note t = returnBook_returned [OF h1 h2, of 3000]
  from t m have a: "returnBook M1 (Oid 1) 3000 returned_1 =
      (Inl (AppError ALREADY_RETURNED), returned_1)"
    by metis
  from t have b: "returnBook_calls (Oid 1) [(M1, 3000), (M2, 4000), (M1, 5000)] returned_1 =
      returned_1"
    by blast
  from h1 h2 a b show ?thesis
    by (intro conjI)
qed

theorem returnBook_returned_other_member:
  "returned (hd (borrowings returned_1)) \<and>
   Borrowing_findById 1 returned_1 = Some (hd (borrowings returned_1)) \<and>
   returnBook M2 (Oid 1) 3000 returned_1 = (Inl (AppError UNAUTHORIZED), returned_1) \<and>
   returnBook M2 (Oid 1) 3000 returned_1 \<noteq> (Inl (AppError ALREADY_RETURNED), returned_1)"
  by (simp add: returned_1_eq M2_def returnBook_def Borrowing_findById_def)

subsection \<open>Adding a book\<close>

lemma Book_findOne_isbn_None:
  "Book_findOne_isbn i s = None \<longleftrightarrow> \<not> (\<exists>b \<in> set (books s). Book.isbn b = Some i)"
  by (auto simp add: Book_findOne_isbn_def find_None_iff)

lemma addBook_object_schema:
  "(addBook_object input |` set bookSchema) ''title'' = Some (Str (createBookInput.title input))"
  "(addBook_object input |` set bookSchema) ''author'' = Some (Str (createBookInput.author input))"
  "(addBook_object input |` set bookSchema) ''isbn'' = Some (Str (createBookInput.isbn input))"
  "(addBook_object input |` set bookSchema) ''availableCopies'' = Some (Num (copies input))"
  "asString ((addBook_object input |` set bookSchema) ''category'') = createBookInput.category input"
  by (simp_all add: addBook_object_def input_object_def bookSchema_def Book_fields_def split: option.splits)

lemma addBook_created:
  assumes "userId c = Some uid"
    and "createBookInput.title input \<noteq> []" and "createBookInput.author input \<noteq> []"
    and "createBookInput.isbn input \<noteq> []" and "1 \<le> copies input"
    and "\<not> (\<exists>b \<in> set (books s). Book.isbn b = Some (createBookInput.isbn input))"
  shows "addBook c input s =
     (Inr \<lparr>Book_id = nextId s, title = createBookInput.title input,
            author = createBookInput.author input, category = createBookInput.category input,
            isbn = Some (createBookInput.isbn input), availableCopies = copies input,
            others = Map.empty\<rparr>,
      s\<lparr>books := books s @
           [\<lparr>Book_id = nextId s, title = createBookInput.title input,
             author = createBookInput.author input, category = createBookInput.category input,
             isbn = Some (createBookInput.isbn input), availableCopies = copies input,
            others = Map.empty\<rparr>],
        nextId := Suc (nextId s)\<rparr>)"
proof -
  from assms(6) have none: "Book_findOne_isbn (createBookInput.isbn input) s = None"
    by (simp add: Book_findOne_isbn_None)
  have "Book_create (addBook_object input) s =
     (Inr \<lparr>Book_id = nextId s, title = createBookInput.title input,
            author = createBookInput.author input, category = createBookInput.category input,
            isbn = Some (createBookInput.isbn input), availableCopies = copies input,
            others = Map.empty\<rparr>,
      s\<lparr>books := books s @
           [\<lparr>Book_id = nextId s, title = createBookInput.title input,
             author = createBookInput.author input, category = createBookInput.category input,
             isbn = Some (createBookInput.isbn input), availableCopies = copies input,
            others = Map.empty\<rparr>],
        nextId := Suc (nextId s)\<rparr>)"
    using assms(2,3,6)
    by (simp add: Book_create_def Let_def addBook_object_schema strict_others)
  with assms(1-5) none show ?thesis
    by (simp add: addBook_def)
qed

lemma addBook_Inr:
  assumes "addBook c input s = (Inr newBook, s')"
  shows "userId c \<noteq> None \<and> createBookInput.title input \<noteq> [] \<and>
         createBookInput.author input \<noteq> [] \<and> createBookInput.isbn input \<noteq> [] \<and>
         1 \<le> copies input \<and>
         \<not> (\<exists>b \<in> set (books s). Book.isbn b = Some (createBookInput.isbn input))"
  using assms
  by (auto simp add: addBook_def Book_findOne_isbn_None
        split: option.splits if_splits prod.splits sum.splits)

text \<open>
  C8, as amended. For an authenticated caller \<^verbatim>\<open>addBook\<close> fails with \<^verbatim>\<open>INVALID_INPUT\<close> when
  the title, the author or the isbn is empty or \<^verbatim>\<open>copies\<close> is 0, and with \<^verbatim>\<open>INVALID_COPIES\<close>
  when these are given and \<^verbatim>\<open>copies\<close> is negative; for a valid input it fails with
  \<^verbatim>\<open>ISBN_EXISTS\<close> when a book with the isbn is stored; otherwise it stores one new book with
  \<^verbatim>\<open>availableCopies\<close> equal to \<^verbatim>\<open>copies\<close>. A failure leaves the database as it was.
\<close>

theorem addBook_outcomes:
  assumes "userId c = Some uid"
  shows
    "(createBookInput.title input = [] \<or> createBookInput.author input = [] \<or>
      createBookInput.isbn input = [] \<or> copies input = 0 \<longrightarrow>
        addBook c input s = (Inl (AppError INVALID_INPUT), s)) \<and>
     (createBookInput.title input \<noteq> [] \<and> createBookInput.author input \<noteq> [] \<and>
      createBookInput.isbn input \<noteq> [] \<and> copies input < 0 \<longrightarrow>
        addBook c input s = (Inl (AppError INVALID_COPIES), s)) \<and>
     (createBookInput.title input \<noteq> [] \<and> createBookInput.author input \<noteq> [] \<and>
      createBookInput.isbn input \<noteq> [] \<and> 1 \<le> copies input \<and>
      (\<exists>b \<in> set (books s). Book.isbn b = Some (createBookInput.isbn input)) \<longrightarrow>
        addBook c input s = (Inl (AppError ISBN_EXISTS), s)) \<and>
     (createBookInput.title input \<noteq> [] \<and> createBookInput.author input \<noteq> [] \<and>
      createBookInput.isbn input \<noteq> [] \<and> 1 \<le> copies input \<and>
      \<not> (\<exists>b \<in> set (books s). Book.isbn b = Some (createBookInput.isbn input)) \<longrightarrow>
        (\<exists>newBook s'. addBook c input s = (Inr newBook, s') \<and>
           availableCopies newBook = copies input \<and>
           Book.title newBook = createBookInput.title input \<and>
           Book.author newBook = createBookInput.author input \<and>
           Book.isbn newBook = Some (createBookInput.isbn input) \<and>
           Book.category newBook = createBookInput.category input \<and>
           books s' = books s @ [newBook] \<and> borrowings s' = borrowings s))"
proof (intro conjI impI)
  show "addBook c input s = (Inl (AppError INVALID_INPUT), s)"
    if "createBookInput.title input = [] \<or> createBookInput.author input = [] \<or>
        createBookInput.isbn input = [] \<or> copies input = 0"
    using that assms by (auto simp add: addBook_def)
next
  show "addBook c input s = (Inl (AppError INVALID_COPIES), s)"
    if "createBookInput.title input \<noteq> [] \<and> createBookInput.author input \<noteq> [] \<and>
        createBookInput.isbn input \<noteq> [] \<and> copies input < 0"
    using that assms by (auto simp add: addBook_def)
next
  assume a: "createBookInput.title input \<noteq> [] \<and> createBookInput.author input \<noteq> [] \<and>
      createBookInput.isbn input \<noteq> [] \<and> 1 \<le> copies input \<and>
      (\<exists>b \<in> set (books s). Book.isbn b = Some (createBookInput.isbn input))"
  then have "Book_findOne_isbn (createBookInput.isbn input) s \<noteq> None"
    by (simp add: Book_findOne_isbn_None)
  with a assms show "addBook c input s = (Inl (AppError ISBN_EXISTS), s)"
    by (auto simp add: addBook_def)
next
  assume a: "createBookInput.title input \<noteq> [] \<and> createBookInput.author input \<noteq> [] \<and>
      createBookInput.isbn input \<noteq> [] \<and> 1 \<le> copies input \<and>
      \<not> (\<exists>b \<in> set (books s). Book.isbn b = Some (createBookInput.isbn input))"
  with assms have "addBook c input s =
     (Inr \<lparr>Book_id = nextId s, title = createBookInput.title input,
            author = createBookInput.author input, category = createBookInput.category input,
            isbn = Some (createBookInput.isbn input), availableCopies = copies input,
            others = Map.empty\<rparr>,
      s\<lparr>books := books s @
           [\<lparr>Book_id = nextId s, title = createBookInput.title input,
             author = createBookInput.author input, category = createBookInput.category input,
             isbn = Some (createBookInput.isbn input), availableCopies = copies input,
            others = Map.empty\<rparr>],
        nextId := Suc (nextId s)\<rparr>)"
    by (intro addBook_created) simp_all
  then show "\<exists>newBook s'. addBook c input s = (Inr newBook, s') \<and>
           availableCopies newBook = copies input \<and>
           Book.title newBook = createBookInput.title input \<and>
           Book.author newBook = createBookInput.author input \<and>
           Book.isbn newBook = Some (createBookInput.isbn input) \<and>
           Book.category newBook = createBookInput.category input \<and>
           books s' = books s @ [newBook] \<and> borrowings s' = borrowings s"
    by simp
qed

theorem addBook_outcomes_witness:
  "userId librarian = Some (Oid 9) \<and>
   createBookInput.title input_111 \<noteq> [] \<and> createBookInput.author input_111 \<noteq> [] \<and>
   createBookInput.isbn input_111 \<noteq> [] \<and> 1 \<le> copies input_111 \<and>
   \<not> (\<exists>b \<in> set (books empty_db). Book.isbn b = Some (createBookInput.isbn input_111)) \<and>
   (\<exists>b \<in> set (books catalog_2). Book.isbn b = Some (createBookInput.isbn input_111)) \<and>
   copies (input_111\<lparr>copies := 0\<rparr>) = 0 \<and>
   (\<exists>newBook s'. addBook librarian input_111 empty_db = (Inr newBook, s') \<and>
      availableCopies newBook = 2 \<and> books s' = [newBook]) \<and>
   addBook librarian input_111 catalog_2 = (Inl (AppError ISBN_EXISTS), catalog_2) \<and>
   addBook librarian (input_111\<lparr>copies := 0\<rparr>) empty_db =
     (Inl (AppError INVALID_INPUT), empty_db) \<and>
   copies (input_111\<lparr>copies := - 5\<rparr>) < 0 \<and>
   addBook librarian (input_111\<lparr>copies := - 5\<rparr>) empty_db =
     (Inl (AppError INVALID_COPIES), empty_db)"
proof -
  have u: "userId librarian = Some (Oid 9)"
    by (simp add: librarian_def)
  have v: "createBookInput.title input_111 \<noteq> [] \<and> createBookInput.author input_111 \<noteq> [] \<and>
      createBookInput.isbn input_111 \<noteq> [] \<and> 1 \<le> copies input_111"
    by (simp add: input_111_def)
  have n: "\<not> (\<exists>b \<in> set (books empty_db). Book.isbn b = Some (createBookInput.isbn input_111))"
    by (simp add: empty_db_def)
  have e: "\<exists>b \<in> set (books catalog_2). Book.isbn b = Some (createBookInput.isbn input_111)"
    by (simp add: catalog_2_eq input_111_def)
  have z: "copies (input_111\<lparr>copies := 0\<rparr>) = 0"
    by simp
  have c2: "copies input_111 = 2" "books empty_db = []"
    by (simp_all add: input_111_def empty_db_def)
  from addBook_outcomes [OF u, of input_111 empty_db] v n c2
  have 1: "\<exists>newBook s'. addBook librarian input_111 empty_db = (Inr newBook, s') \<and>
      availableCopies newBook = 2 \<and> books s' = [newBook]"
    by auto
  from addBook_outcomes [OF u, of input_111 catalog_2] v e
  have 2: "addBook librarian input_111 catalog_2 = (Inl (AppError ISBN_EXISTS), catalog_2)"
    by blast
  from addBook_outcomes [OF u, of "input_111\<lparr>copies := 0\<rparr>" empty_db] z
  have 3: "addBook librarian (input_111\<lparr>copies := 0\<rparr>) empty_db =
      (Inl (AppError INVALID_INPUT), empty_db)"
    by blast
  have m: "createBookInput.title (input_111\<lparr>copies := - 5\<rparr>) \<noteq> [] \<and>
      createBookInput.author (input_111\<lparr>copies := - 5\<rparr>) \<noteq> [] \<and>
      createBookInput.isbn (input_111\<lparr>copies := - 5\<rparr>) \<noteq> [] \<and>
      copies (input_111\<lparr>copies := - 5\<rparr>) < 0"
    by (simp add: input_111_def)
  from addBook_outcomes [OF u, of "input_111\<lparr>copies := - 5\<rparr>" empty_db] m
  have 4: "addBook librarian (input_111\<lparr>copies := - 5\<rparr>) empty_db =
      (Inl (AppError INVALID_COPIES), empty_db)"
    by blast
  from m have m': "copies (input_111\<lparr>copies := - 5\<rparr>) < 0"
    by blast
  from u v n e z 1 2 3 m' 4 show ?thesis
    by (intro conjI) simp_all
qed

text \<open>
  The claim as stated fails for a negative number of copies: the failure is
  \<^verbatim>\<open>INVALID_COPIES\<close>, not \<^verbatim>\<open>INVALID_INPUT\<close>.
\<close>

theorem addBook_negative_copies:
  "copies (input_111\<lparr>copies := - 1\<rparr>) < 1 \<and>
   addBook librarian (input_111\<lparr>copies := - 1\<rparr>) empty_db =
     (Inl (AppError INVALID_COPIES), empty_db) \<and>
   addBook librarian (input_111\<lparr>copies := - 1\<rparr>) empty_db \<noteq>
     (Inl (AppError INVALID_INPUT), empty_db)"
  by (simp add: addBook_def librarian_def input_111_def)

subsection \<open>Searching\<close>

lemma beyond_core_literal:
  assumes "\<forall>c \<in> set query. c \<notin> set regex_special"
  shows "\<not> beyond_core query"
  using assms
  by (induction query rule: beyond_core.induct)
     (auto simp add: regex_special_def beyond_chars_def quantifiers_def)

lemma scan_literal:
  assumes "\<forall>c \<in> set query. c \<notin> set regex_special"
  shows "scan query (bs, as) outer = scan [] (bs, rev (map Lit query) @ as) outer"
  using assms
proof (induction query arbitrary: as)
  case Nil
  show ?case by simp
next
  case (Cons c cs)
  then have "c \<notin> set regex_special"
    by simp
  then have c: "c \<noteq> CHR ''(''" "c \<noteq> CHR '')''" "c \<noteq> CHR ''|''" "c \<notin> set quantifiers"
      "c \<noteq> CHR ''.''"
    by (auto simp add: regex_special_def quantifiers_def)
  from Cons have "scan cs (bs, Lit c # as) outer =
      scan [] (bs, rev (map Lit cs) @ Lit c # as) outer"
    by simp
  with c show ?case
    by simp
qed

lemma compile_literal:
  assumes "\<forall>c \<in> set query. c \<notin> set regex_special"
  shows "compile query = Core (seq_of (map Lit query))"
  using beyond_core_literal [OF assms] scan_literal [OF assms, of "[]" "[]" "[]"]
  by (simp add: compile_def close_frame_def)

lemma rests_literal:
  "rests (seq_of (map Lit query)) field =
     (if prefix (map toLower query) (map toLower field) then [drop (length query) field]
      else [])"
proof (induction query arbitrary: field)
  case Nil
  show ?case by simp
next
  case (Cons c cs)
  show ?case
  proof (cases field)
    case Nil
    then show ?thesis by simp
  next
    case (Cons d ds)
    with Cons.IH [of ds] show ?thesis by simp
  qed
qed

lemma regex_test_literal:
  "regex_test (seq_of (map Lit query)) field \<longleftrightarrow> contains_ci query field"
proof (induction field)
  case Nil
  show ?case
    by (cases query) (simp_all add: contains_ci_def rests_literal)
next
  case (Cons d ds)
  have "contains_ci query (d # ds) \<longleftrightarrow>
      prefix (map toLower query) (map toLower (d # ds)) \<or> contains_ci query ds"
    by (simp add: contains_ci_def sublist_Cons_right)
  with Cons show ?case
    by (simp add: rests_literal)
qed

text \<open>
  C9, as amended. For a query without characters of the regular-expression syntax,
  \<^verbatim>\<open>searchBooks\<close> returns exactly the books whose title or author contains the query as a
  substring, letters compared without case.
\<close>

theorem searchBooks_literal:
  assumes "\<forall>c \<in> set query. c \<notin> set regex_special"
  shows "searchBooks engine query s =
     Inr (filter (\<lambda>b. contains_ci query (Book.title b) \<or> contains_ci query (Book.author b))
            (books s))"
  using compile_literal [OF assms]
  by (simp add: searchBooks_def regex_test_literal)

theorem searchBooks_literal_witness:
  "set ''dUn'' \<inter> set regex_special = {} \<and>
   searchBooks no_engine ''dUn'' catalog_2 = Inr (books catalog_2) \<and>
   contains_ci ''dUn'' (Book.title (hd (books catalog_2)))"
proof -
  have h: "\<forall>c \<in> set ''dUn''. c \<notin> set regex_special"
    by (simp add: regex_special_def)
  have "contains_ci ''dUn'' ''Dune''"
    by code_simp
  then have c: "contains_ci ''dUn'' (Book.title (hd (books catalog_2)))"
    by (simp add: catalog_2_eq)
  have d: "set ''dUn'' \<inter> set regex_special = {}"
    by (simp add: regex_special_def)
  from searchBooks_literal [OF h, of no_engine catalog_2] c d show ?thesis
    by (simp add: catalog_2_eq)
qed

text \<open>
  The claim as stated fails for a query with such characters. The query \<^verbatim>\<open>.\<close> finds the
  book, and neither its title nor its author contains a dot; so does \<^verbatim>\<open>D.*e\<close>; and the
  query \<^verbatim>\<open>(\<close> finds nothing, it fails.
\<close>

lemma searchBooks_core:
  assumes "compile query = Core re"
  shows "searchBooks engine query s =
     Inr (filter (\<lambda>b. regex_test re (Book.title b) \<or> regex_test re (Book.author b)) (books s))"
  using assms by (simp add: searchBooks_def)

theorem searchBooks_dot:
  "searchBooks no_engine ''.'' catalog_2 = Inr (books catalog_2) \<and>
   searchBooks no_engine ''D.*e'' catalog_2 = Inr (books catalog_2) \<and>
   searchBooks no_engine ''('' catalog_2 = Inl (AppError SEARCH_BOOKS_ERROR) \<and>
   books catalog_2 \<noteq> [] \<and>
   filter (\<lambda>b. contains_ci ''.'' (Book.title b) \<or> contains_ci ''.'' (Book.author b))
     (books catalog_2) = [] \<and>
   filter (\<lambda>b. contains_ci ''D.*e'' (Book.title b) \<or> contains_ci ''D.*e'' (Book.author b))
     (books catalog_2) = []"
proof -
  have dot: "compile ''.'' = Core (Seq AnyChar Empty)"
    and star: "compile ''D.*e'' =
      Core (Seq (Lit CHR ''D'') (Seq (Star AnyChar) (Seq (Lit CHR ''e'') Empty)))"
    and paren: "compile ''('' = Invalid"
    by code_simp+
  have found: "regex_test (Seq AnyChar Empty) ''Dune''"
    "regex_test (Seq (Lit CHR ''D'') (Seq (Star AnyChar) (Seq (Lit CHR ''e'') Empty))) ''Dune''"
    by code_simp+
  have absent: "\<not> contains_ci ''.'' ''Dune''" "\<not> contains_ci ''.'' ''Herbert''"
    "\<not> contains_ci ''D.*e'' ''Dune''" "\<not> contains_ci ''D.*e'' ''Herbert''"
    by code_simp+
  from paren have "searchBooks no_engine ''('' catalog_2 = Inl (AppError SEARCH_BOOKS_ERROR)"
    by (simp add: searchBooks_def)
  with found absent show ?thesis
    by (simp add: searchBooks_core [OF dot] searchBooks_core [OF star] catalog_2_eq)
qed

subsection \<open>Sequential runs keep the database consistent\<close>

lemma find_distinct_key:
  assumes "distinct (map k xs)" and "x \<in> set xs"
  shows "find (\<lambda>y. k y = k x) xs = Some x"
  using assms by (induction xs) (auto simp add: rev_image_eqI)

lemma addBook_Inl: "addBook c input s = (Inl e, s') \<Longrightarrow> s' = s"
  by (auto simp add: addBook_def Book_create_def Let_def
        split: option.splits if_splits prod.splits sum.splits)

lemma borrowBook_snd:
  "snd (borrowBook c bookId now s) = s \<or>
   (\<exists>m b bk. Book_findById b s = Some bk \<and> 0 < availableCopies bk \<and>
      snd (borrowBook c bookId now s) =
        s\<lparr>books := map (\<lambda>x. if Book_id x = b
                            then x\<lparr>availableCopies := availableCopies bk - 1\<rparr> else x) (books s),
          borrowings := borrowings s @
            [\<lparr>Borrowing_id = nextId s, member' = m, book = b, borrowDate = now,
              returnDate = None, returned = False\<rparr>],
          nextId := Suc (nextId s)\<rparr>)"
proof (cases "\<exists>r. fst (borrowBook c bookId now s) = Inr r")
  case False
  then show ?thesis
    by (auto simp add: borrowBook_def Borrowing_create_def Let_def
          split: option.splits ID.splits if_splits)
next
  case True
  then obtain m b bk where h: "userId c = Some (Oid m)" "bookId = Oid b"
      "Book_findById b s = Some bk" "0 < availableCopies bk"
      "Borrowing_findOne m b False s = None"
    by (auto simp add: borrowBook_def split: option.splits ID.splits if_splits)
  from h(3) have "Book_id bk = b"
    by (rule Book_findById_id)
  with h show ?thesis
    by (intro disjI2 exI [of _ m] exI [of _ b] exI [of _ bk])
       (simp add: borrowBook_def Borrowing_create_def Book_save_def Let_def)
qed

lemma returnBook_snd:
  "snd (returnBook c borrowingId now s) = s \<or>
   (\<exists>r. r \<in> set (borrowings s) \<and> \<not> returned r \<and>
      (let s1 = s\<lparr>borrowings := map (\<lambda>x. if Borrowing_id x = Borrowing_id r
                      then x\<lparr>returned := True, returnDate := Some now\<rparr> else x) (borrowings s)\<rparr>
       in case Book_findById (book r) s of
            None \<Rightarrow> snd (returnBook c borrowingId now s) = s1
          | Some bk \<Rightarrow>
              snd (returnBook c borrowingId now s) =
                s1\<lparr>books := map (\<lambda>x. if Book_id x = book r
                            then x\<lparr>availableCopies := availableCopies bk + 1\<rparr> else x) (books s)\<rparr>))"
proof (cases "\<exists>r'. fst (returnBook c borrowingId now s) = Inr r' \<or>
    fst (returnBook c borrowingId now s) = Inl (AppError RETURN_BOOK_ERROR)")
  case False
  then show ?thesis
    by (auto simp add: returnBook_def Let_def split: option.splits ID.splits if_splits)
next
  case True
  then obtain rid r where r: "borrowingId = Oid rid" "Borrowing_findById rid s = Some r"
      "userId c = Some (Oid (member' r))" "\<not> returned r"
    by (auto simp add: returnBook_def Let_def split: option.splits ID.splits if_splits)
  then have "r \<in> set (borrowings s)"
    by (auto simp add: Borrowing_findById_def dest: find_SomeD)
  moreover have "Book_findById i (Borrowing_save d s) = Book_findById i s" for i d
    by (simp add: Book_findById_def Borrowing_save_def)
  ultimately show ?thesis
    using r
    by (intro disjI2 exI [of _ r])
       (auto simp add: returnBook_def Let_def Borrowing_save_def Book_save_def
          dest: Book_findById_id split: option.splits)
qed


lemma active_count_append:
  "active_count b (s\<lparr>books := bs, borrowings := borrowings s @ [r], nextId := n\<rparr>) =
     active_count b s + (if book r = b \<and> \<not> returned r then 1 else 0)"
  by (simp add: active_count_def)

lemma map_unchanged:
  assumes "\<forall>x \<in> set xs. k x \<noteq> i"
  shows "map (\<lambda>x. if k x = i then g x else x) xs = xs"
  using assms by (induction xs) auto

lemma active_after_return:
  assumes "distinct (map Borrowing_id rs)" and "r \<in> set rs" and "\<not> returned r"
  shows "length (filter (\<lambda>x. book x = b \<and> \<not> returned x)
            (map (\<lambda>x. if Borrowing_id x = Borrowing_id r
                       then x\<lparr>returned := True, returnDate := d\<rparr> else x) rs)) +
           (if book r = b then 1 else 0) =
         length (filter (\<lambda>x. book x = b \<and> \<not> returned x) rs)"
  using assms
proof (induction rs)
  case Nil
  then show ?case by simp
next
  case (Cons x rs)
  show ?case
  proof (cases "x = r")
    case True
    with Cons.prems have "Borrowing_id r \<notin> Borrowing_id ` set rs"
      by simp
    then have "\<forall>y \<in> set rs. Borrowing_id y \<noteq> Borrowing_id r"
      by (metis imageI)
    then have "map (\<lambda>x. if Borrowing_id x = Borrowing_id r
        then x\<lparr>returned := True, returnDate := d\<rparr> else x) rs = rs"
      by (rule map_unchanged)
    with True Cons.prems(3) show ?thesis
      by simp
  next
    case False
    with Cons.prems have "r \<in> set rs" and "Borrowing_id x \<noteq> Borrowing_id r"
      and "distinct (map Borrowing_id rs)"
      by auto
    with Cons.IH [OF this(3) this(1) Cons.prems(3)] show ?thesis
      by (cases "book r = b") simp_all
  qed
qed

lemma consistent_addBook:
  assumes "consistent (s, t)"
  shows "consistent (step (AddBook c input) (s, t))"
proof (cases "addBook c input s")
  case (Pair res s')
  show ?thesis
  proof (cases res)
    case (Inl e)
    with Pair have "s' = s"
      by (auto dest: addBook_Inl)
    with Pair Inl assms show ?thesis
      by simp
  next
    case (Inr newBook)
    with Pair have ok: "addBook c input s = (Inr newBook, s')"
      by simp
    from addBook_Inr [OF ok] obtain uid where "userId c = Some uid"
      by auto
    with addBook_Inr [OF ok] have "addBook c input s =
     (Inr \<lparr>Book_id = nextId s, title = createBookInput.title input,
            author = createBookInput.author input, category = createBookInput.category input,
            isbn = Some (createBookInput.isbn input), availableCopies = copies input,
            others = Map.empty\<rparr>,
      s\<lparr>books := books s @
           [\<lparr>Book_id = nextId s, title = createBookInput.title input,
             author = createBookInput.author input, category = createBookInput.category input,
             isbn = Some (createBookInput.isbn input), availableCopies = copies input,
            others = Map.empty\<rparr>],
        nextId := Suc (nextId s)\<rparr>)"
      by (intro addBook_created) simp_all
    with ok have new: "Book_id newBook = nextId s" "availableCopies newBook = copies input"
        "s' = s\<lparr>books := books s @ [newBook], nextId := Suc (nextId s)\<rparr>"
      by auto
    from addBook_Inr [OF ok] have pos: "1 \<le> copies input"
      by simp
    from assms have fresh: "\<forall>r \<in> set (borrowings s). book r \<noteq> nextId s"
      by (fastforce simp add: consistent_def)
    then have "active_count (nextId s) s' = 0"
      by (simp add: new active_count_def)
    moreover have "active_count b s' = active_count b s" for b
      by (simp add: new active_count_def)
    ultimately show ?thesis
      using assms ok new pos
      by (auto simp add: consistent_def less_Suc_eq)
  qed
qed


lemma map_key_upd:
  assumes "\<And>x. k (g x) = k x"
  shows "map (k \<circ> (\<lambda>x. if k x = i then g x else x)) xs = map k xs"
  using assms by (induction xs) auto

lemma consistentI:
  assumes "distinct (map Book_id (books s))"
    and "distinct (map Borrowing_id (borrowings s))"
    and "\<And>b. b \<in> set (books s) \<Longrightarrow> Book_id b < nextId s"
    and "\<And>r. r \<in> set (borrowings s) \<Longrightarrow> Borrowing_id r < nextId s"
    and "\<And>r. r \<in> set (borrowings s) \<Longrightarrow> \<exists>b \<in> set (books s). Book_id b = book r"
    and "\<And>b. b \<in> set (books s) \<Longrightarrow> 0 \<le> availableCopies b"
    and "\<And>b. b \<in> set (books s) \<Longrightarrow>
           t (Book_id b) = Some (availableCopies b + int (active_count (Book_id b) s))"
  shows "consistent (s, t)"
  using assms unfolding consistent_def by simp

lemma consistentD:
  assumes "consistent (s, t)"
  shows "distinct (map Book_id (books s))"
    and "distinct (map Borrowing_id (borrowings s))"
    and "\<And>b. b \<in> set (books s) \<Longrightarrow> Book_id b < nextId s"
    and "\<And>r. r \<in> set (borrowings s) \<Longrightarrow> Borrowing_id r < nextId s"
    and "\<And>r. r \<in> set (borrowings s) \<Longrightarrow> \<exists>b \<in> set (books s). Book_id b = book r"
    and "\<And>b. b \<in> set (books s) \<Longrightarrow> 0 \<le> availableCopies b"
    and "\<And>b. b \<in> set (books s) \<Longrightarrow>
           t (Book_id b) = Some (availableCopies b + int (active_count (Book_id b) s))"
  using assms unfolding consistent_def by simp_all

lemma Book_findById_unique:
  assumes "distinct (map Book_id (books s))" and "Book_findById b s = Some bk"
    and "x \<in> set (books s)" and "Book_id x = b"
  shows "x = bk"
proof -
  from assms(1,3) have "find (\<lambda>y. Book_id y = Book_id x) (books s) = Some x"
    by (rule find_distinct_key)
  with assms(2,4) show ?thesis
    by (simp add: Book_findById_def)
qed

lemma consistent_borrowBook:
  assumes "consistent (s, t)"
  shows "consistent (snd (borrowBook c bookId now s), t)"
proof -
  note inv = consistentD [OF assms]
  from borrowBook_snd [of c bookId now s] show ?thesis
  proof
    assume "snd (borrowBook c bookId now s) = s"
    with assms show ?thesis by simp
  next
    assume "\<exists>m b bk. Book_findById b s = Some bk \<and> 0 < availableCopies bk \<and>
      snd (borrowBook c bookId now s) =
        s\<lparr>books := map (\<lambda>x. if Book_id x = b
                            then x\<lparr>availableCopies := availableCopies bk - 1\<rparr> else x) (books s),
          borrowings := borrowings s @
            [\<lparr>Borrowing_id = nextId s, member' = m, book = b, borrowDate = now,
              returnDate = None, returned = False\<rparr>],
          nextId := Suc (nextId s)\<rparr>"
    then obtain m b bk where found: "Book_findById b s = Some bk"
      and pos: "0 < availableCopies bk"
      and s': "snd (borrowBook c bookId now s) =
        s\<lparr>books := map (\<lambda>x. if Book_id x = b
                            then x\<lparr>availableCopies := availableCopies bk - 1\<rparr> else x) (books s),
          borrowings := borrowings s @
            [\<lparr>Borrowing_id = nextId s, member' = m, book = b, borrowDate = now,
              returnDate = None, returned = False\<rparr>],
          nextId := Suc (nextId s)\<rparr>"
      by blast
    define f :: "Book \<Rightarrow> Book" where "f = (\<lambda>x. if Book_id x = b
        then x\<lparr>availableCopies := availableCopies bk - 1\<rparr> else x)"
    define r :: Borrowing where "r = \<lparr>Borrowing_id = nextId s, member' = m, book = b, borrowDate = now,
        returnDate = None, returned = False\<rparr>"
    define s' where "s' = s\<lparr>books := map f (books s), borrowings := borrowings s @ [r],
        nextId := Suc (nextId s)\<rparr>"
    have sel: "books s' = map f (books s)" "borrowings s' = borrowings s @ [r]"
        "nextId s' = Suc (nextId s)"
      by (simp_all add: s'_def)
    have f_id: "Book_id (f x) = Book_id x" for x
      by (simp add: f_def)
    have r_sel: "Borrowing_id r = nextId s" "book r = b" "\<not> returned r"
      by (simp_all add: r_def)
    from found have bk: "bk \<in> set (books s)" "Book_id bk = b"
      by (auto simp add: Book_findById_def dest: find_SomeD)
    have count: "active_count i s' = active_count i s + (if i = b then 1 else 0)" for i
      using r_sel by (auto simp add: active_count_def sel)
    have "consistent (s', t)"
    proof (rule consistentI)
      show "distinct (map Book_id (books s'))"
        using inv(1) f_id by (simp add: sel comp_def)
      have "nextId s \<notin> Borrowing_id ` set (borrowings s)"
      proof
        assume "nextId s \<in> Borrowing_id ` set (borrowings s)"
        then obtain x where "x \<in> set (borrowings s)" "Borrowing_id x = nextId s"
          by auto
        with inv(4) [of x] show False
          by simp
      qed
      with inv(2) r_sel show "distinct (map Borrowing_id (borrowings s'))"
        by (simp add: sel)
      show "Book_id x < nextId s'" if "x \<in> set (books s')" for x
        using that inv(3) f_id by (auto simp add: sel less_Suc_eq)
      show "Borrowing_id x < nextId s'" if "x \<in> set (borrowings s')" for x
        using that inv(4) r_sel by (auto simp add: sel less_Suc_eq)
      show "\<exists>y \<in> set (books s'). Book_id y = book x" if "x \<in> set (borrowings s')" for x
      proof -
        from that inv(5) bk r_sel have "\<exists>y \<in> set (books s). Book_id y = book x"
          by (auto simp add: sel)
        then obtain y where "y \<in> set (books s)" "Book_id y = book x"
          by blast
        then have "f y \<in> set (books s')" "Book_id (f y) = book x"
          by (simp_all add: sel f_id)
        then show ?thesis
          by blast
      qed
      fix x'
      assume "x' \<in> set (books s')"
      then obtain x where x: "x \<in> set (books s)" "x' = f x"
        by (auto simp add: sel)
      show "0 \<le> availableCopies x'"
      proof (cases "Book_id x = b")
        case True
        with x pos show ?thesis by (simp add: f_def)
      next
        case False
        with x inv(6) show ?thesis by (simp add: f_def)
      qed
      show "t (Book_id x') = Some (availableCopies x' + int (active_count (Book_id x') s'))"
      proof (cases "Book_id x = b")
        case True
        with inv(1) found x(1) have "x = bk"
          by (rule_tac Book_findById_unique)
        with True x inv(7) [OF x(1)] show ?thesis
          by (simp add: f_def count)
      next
        case False
        with x inv(7) [OF x(1)] show ?thesis
          by (simp add: f_def count)
      qed
    qed
    then show ?thesis
      by (simp add: s' s'_def f_def r_def)
  qed
qed


lemma consistent_returnBook:
  assumes "consistent (s, t)"
  shows "consistent (snd (returnBook c borrowingId now s), t)"
proof -
  note inv = consistentD [OF assms]
  from returnBook_snd [of c borrowingId now s] show ?thesis
  proof
    assume "snd (returnBook c borrowingId now s) = s"
    with assms show ?thesis by simp
  next
    assume "\<exists>r. r \<in> set (borrowings s) \<and> \<not> returned r \<and>
      (let s1 = s\<lparr>borrowings := map (\<lambda>x. if Borrowing_id x = Borrowing_id r
                      then x\<lparr>returned := True, returnDate := Some now\<rparr> else x) (borrowings s)\<rparr>
       in case Book_findById (book r) s of
            None \<Rightarrow> snd (returnBook c borrowingId now s) = s1
          | Some bk \<Rightarrow>
              snd (returnBook c borrowingId now s) =
                s1\<lparr>books := map (\<lambda>x. if Book_id x = book r
                            then x\<lparr>availableCopies := availableCopies bk + 1\<rparr> else x) (books s)\<rparr>)"
    then obtain r where r: "r \<in> set (borrowings s)" "\<not> returned r"
      and eff: "case Book_findById (book r) s of
            None \<Rightarrow> snd (returnBook c borrowingId now s) =
              s\<lparr>borrowings := map (\<lambda>x. if Borrowing_id x = Borrowing_id r
                      then x\<lparr>returned := True, returnDate := Some now\<rparr> else x) (borrowings s)\<rparr>
          | Some bk \<Rightarrow>
              snd (returnBook c borrowingId now s) =
                s\<lparr>borrowings := map (\<lambda>x. if Borrowing_id x = Borrowing_id r
                      then x\<lparr>returned := True, returnDate := Some now\<rparr> else x) (borrowings s),
                  books := map (\<lambda>x. if Book_id x = book r
                            then x\<lparr>availableCopies := availableCopies bk + 1\<rparr> else x) (books s)\<rparr>"
      by (auto simp add: Let_def)
    from inv(5) [OF r(1)] have "Book_findById (book r) s \<noteq> None"
      by (auto simp add: Book_findById_def find_None_iff)
    then obtain bk where found: "Book_findById (book r) s = Some bk"
      by blast
    define g :: "Borrowing \<Rightarrow> Borrowing" where "g = (\<lambda>x. if Borrowing_id x = Borrowing_id r
        then x\<lparr>returned := True, returnDate := Some now\<rparr> else x)"
    define h :: "Book \<Rightarrow> Book" where "h = (\<lambda>x. if Book_id x = book r
        then x\<lparr>availableCopies := availableCopies bk + 1\<rparr> else x)"
    define s' where "s' = s\<lparr>borrowings := map g (borrowings s), books := map h (books s)\<rparr>"
    from eff found have s': "snd (returnBook c borrowingId now s) = s'"
      by (simp add: s'_def g_def h_def)
    have sel: "books s' = map h (books s)" "borrowings s' = map g (borrowings s)"
        "nextId s' = nextId s"
      by (simp_all add: s'_def)
    have g_id: "Borrowing_id (g x) = Borrowing_id x" "book (g x) = book x" for x
      by (simp_all add: g_def)
    have h_id: "Book_id (h x) = Book_id x" for x
      by (simp add: h_def)
    have count: "active_count i s' + (if book r = i then 1 else 0) = active_count i s" for i
      unfolding active_count_def sel g_def
      using inv(2) r by (rule active_after_return)
    have "consistent (s', t)"
    proof (rule consistentI)
      show "distinct (map Book_id (books s'))"
        using inv(1) h_id by (simp add: sel comp_def)
      show "distinct (map Borrowing_id (borrowings s'))"
        using inv(2) g_id by (simp add: sel comp_def)
      show "Book_id x < nextId s'" if "x \<in> set (books s')" for x
        using that inv(3) h_id by (auto simp add: sel)
      show "Borrowing_id x < nextId s'" if "x \<in> set (borrowings s')" for x
        using that inv(4) g_id by (auto simp add: sel)
      show "\<exists>y \<in> set (books s'). Book_id y = book x" if "x \<in> set (borrowings s')" for x
      proof -
        from that obtain x0 where "x0 \<in> set (borrowings s)" "x = g x0"
          by (auto simp add: sel)
        with inv(5) [of x0] obtain y where "y \<in> set (books s)" "Book_id y = book x"
          by (auto simp add: g_id)
        then have "h y \<in> set (books s')" "Book_id (h y) = book x"
          by (simp_all add: sel h_id)
        then show ?thesis
          by blast
      qed
      fix x'
      assume "x' \<in> set (books s')"
      then obtain x where x: "x \<in> set (books s)" "x' = h x"
        by (auto simp add: sel)
      have same: "x = bk" if "Book_id x = book r"
        using inv(1) found x(1) that by (rule Book_findById_unique)
      show "0 \<le> availableCopies x'"
        using x inv(6) [OF x(1)] same by (auto simp add: h_def)
      show "t (Book_id x') = Some (availableCopies x' + int (active_count (Book_id x') s'))"
      proof (cases "Book_id x = book r")
        case True
        with same have "x = bk" by simp
        with True x inv(7) [OF x(1)] count [of "book r"] show ?thesis
          by (simp add: h_def)
      next
        case False
        with x inv(7) [OF x(1)] count [of "Book_id x"] show ?thesis
          by (simp add: h_def)
      qed
    qed
    with s' show ?thesis
      by simp
  qed
qed

lemma consistent_step:
  assumes "consistent st"
  shows "consistent (step op st)"
proof (cases st)
  case (Pair s t)
  with assms have inv: "consistent (s, t)"
    by simp
  show ?thesis
  proof (cases op)
    case (AddBook c input)
    with Pair consistent_addBook [OF inv, of c input] show ?thesis
      by simp
  next
    case (BorrowBook c bookId now)
    with Pair consistent_borrowBook [OF inv, of c bookId now] show ?thesis
      by simp
  next
    case (ReturnBook c borrowingId now)
    with Pair consistent_returnBook [OF inv, of c borrowingId now] show ?thesis
      by simp
  qed
qed

lemma consistent_fold:
  assumes "consistent st"
  shows "consistent (fold step ops st)"
  using assms by (induction ops arbitrary: st) (simp_all add: consistent_step)

lemma consistent_run: "consistent (run ops)"
  unfolding run_def
  by (rule consistent_fold) (simp add: consistent_def empty_db_def)


text \<open>
  C2. After every sequence of \<^verbatim>\<open>addBook\<close>, \<^verbatim>\<open>borrowBook\<close> and \<^verbatim>\<open>returnBook\<close> calls on the
  empty database, each book has at least 0 available copies and at most the copies it was
  created with; the difference is the number of its active borrowings.
\<close>

theorem availableCopies_bounds:
  "\<forall>b \<in> set (books (fst (run ops))).
     \<exists>total. snd (run ops) (Book_id b) = Some total \<and>
       0 \<le> availableCopies b \<and> availableCopies b \<le> total \<and>
       total = availableCopies b + int (active_count (Book_id b) (fst (run ops)))"
proof
  fix b
  assume b: "b \<in> set (books (fst (run ops)))"
  have "consistent (fst (run ops), snd (run ops))"
    using consistent_run [of ops] by simp
  from consistentD(6,7) [OF this b] show "\<exists>total. snd (run ops) (Book_id b) = Some total \<and>
       0 \<le> availableCopies b \<and> availableCopies b \<le> total \<and>
       total = availableCopies b + int (active_count (Book_id b) (fst (run ops)))"
    by simp
qed

theorem availableCopies_bounds_witness:
  "hd (books (fst (run ops_A))) \<in> set (books (fst (run ops_A))) \<and>
   availableCopies (hd (books (fst (run ops_A)))) = 1 \<and>
   snd (run ops_A) (Book_id (hd (books (fst (run ops_A))))) = Some 2 \<and>
   active_count (Book_id (hd (books (fst (run ops_A))))) (fst (run ops_A)) = 1"
proof -
  have h: "hd (books (fst (run ops_A))) \<in> set (books (fst (run ops_A)))"
    by (simp add: run_ops_A)
  have a: "availableCopies (hd (books (fst (run ops_A)))) = 1"
    and i: "Book_id (hd (books (fst (run ops_A)))) = 0"
    by (simp_all add: run_ops_A)
  from availableCopies_bounds [of ops_A] h
  have "\<exists>total. snd (run ops_A) (Book_id (hd (books (fst (run ops_A))))) = Some total \<and>
       total = availableCopies (hd (books (fst (run ops_A)))) +
         int (active_count (Book_id (hd (books (fst (run ops_A))))) (fst (run ops_A)))"
    by blast
  with a i run_ops_A(2) h show ?thesis
    by simp
qed

subsection \<open>What is stored of a book\<close>

lemma Book_create_others:
  assumes "Book_create obj s = (Inr newBook, s')"
  shows "others newBook = Map.empty"
proof -
  have "(obj |` set bookSchema) |` (- set Book_fields) = Map.empty"
    by (simp add: strict_others)
  with assms show ?thesis
    by (auto simp add: Book_create_def Let_def split: option.splits if_splits)
qed

lemma addBook_others:
  assumes "addBook c input s = (Inr newBook, s')"
  shows "others newBook = Map.empty" and "books s' = books s @ [newBook]"
proof -
  from assms have created: "Book_create (addBook_object input) s = (Inr newBook, s')"
    by (auto simp add: addBook_def split: option.splits if_splits prod.splits sum.splits)
  then show "others newBook = Map.empty"
    by (rule Book_create_others)
  from created show "books s' = books s @ [newBook]"
    by (auto simp add: Book_create_def Let_def split: option.splits if_splits)
qed

lemma Book_toObject_strict:
  assumes "others b = Map.empty"
  shows "dom (Book_toObject b) \<subseteq> {''_id'', ''__v''} \<union> set bookSchema"
    and "Book_toObject b ''totalCopies'' = None"
  using assms
  by (auto simp add: Book_toObject_def bookSchema_def map_add_def
        split: option.splits if_splits)

lemma step_others:
  assumes "\<forall>b \<in> set (books (fst st)). others b = Map.empty"
  shows "\<forall>b \<in> set (books (fst (step op st))). others b = Map.empty"
proof (cases st)
  case (Pair s t)
  with assms have old: "\<forall>b \<in> set (books s). others b = Map.empty"
    by simp
  show ?thesis
  proof (cases op)
    case (AddBook c input)
    show ?thesis
    proof (cases "addBook c input s")
      case (Pair res s')
      show ?thesis
      proof (cases res)
        case (Inl e)
        with Pair have "s' = s"
          by (auto dest: addBook_Inl)
        with old Pair Inl AddBook \<open>st = (s, t)\<close> show ?thesis
          by simp
      next
        case (Inr newBook)
        with Pair have "addBook c input s = (Inr newBook, s')"
          by simp
        from addBook_others [OF this] old Pair Inr AddBook \<open>st = (s, t)\<close> show ?thesis
          by auto
      qed
    qed
  next
    case (BorrowBook c bookId now)
    from borrowBook_snd [of c bookId now s] old
    have "\<forall>b \<in> set (books (snd (borrowBook c bookId now s))). others b = Map.empty"
      by auto
    with BorrowBook Pair show ?thesis
      by simp
  next
    case (ReturnBook c borrowingId now)
    from returnBook_snd [of c borrowingId now s] old
    have "\<forall>b \<in> set (books (snd (returnBook c borrowingId now s))). others b = Map.empty"
      by (auto simp add: Let_def split: option.splits)
    with ReturnBook Pair show ?thesis
      by simp
  qed
qed

lemma fold_step_others:
  assumes "\<forall>b \<in> set (books (fst st)). others b = Map.empty"
  shows "\<forall>b \<in> set (books (fst (fold step ops st))). others b = Map.empty"
  using assms
proof (induction ops arbitrary: st)
  case Nil
  then show ?case by simp
next
  case (Cons op ops)
  from step_others [OF Cons.prems] have "\<forall>b \<in> set (books (fst (step op st))). others b = Map.empty" .
  then have "\<forall>b \<in> set (books (fst (fold step ops (step op st)))). others b = Map.empty"
    by (rule Cons.IH)
  then show ?case
    by simp
qed

lemma run_others: "\<forall>b \<in> set (books (fst (run ops))). others b = Map.empty"
  unfolding run_def by (rule fold_step_others) (simp add: empty_db_def)

text \<open>
  C10. \<^verbatim>\<open>addBook\<close> hands \<^verbatim>\<open>Book.create\<close> an object with \<^verbatim>\<open>totalCopies\<close> set to
  \<^verbatim>\<open>copies\<close>. The schema is strict and \<^verbatim>\<open>totalCopies\<close> is no path of it, so the property
  is dropped: the stored document of the new book has no \<^verbatim>\<open>totalCopies\<close> (its properties
  are \<^verbatim>\<open>_id\<close>, \<^verbatim>\<open>__v\<close> and paths of the schema). No book in a database the resolvers have
  built has one, so a read of \<^verbatim>\<open>totalCopies\<close> finds nothing.
\<close>

theorem addBook_drops_totalCopies:
  assumes "addBook c input s = (Inr newBook, s')"
  shows "addBook_object input ''totalCopies'' = Some (Num (copies input)) \<and>
         newBook \<in> set (books s') \<and>
         Book_toObject newBook ''totalCopies'' = None \<and>
         dom (Book_toObject newBook) \<subseteq> {''_id'', ''__v''} \<union> set bookSchema \<and>
         (\<forall>b \<in> set (books (fst (run ops))). Book_toObject b ''totalCopies'' = None)"
proof (intro conjI ballI)
  show "addBook_object input ''totalCopies'' = Some (Num (copies input))"
    by (simp add: addBook_object_def)
  from addBook_others(2) [OF assms] show "newBook \<in> set (books s')"
    by simp
  from addBook_others(1) [OF assms]
  show "Book_toObject newBook ''totalCopies'' = None"
    and "dom (Book_toObject newBook) \<subseteq> {''_id'', ''__v''} \<union> set bookSchema"
    by (simp_all only: Book_toObject_strict)
  fix b
  assume "b \<in> set (books (fst (run ops)))"
  with run_others have "others b = Map.empty"
    by blast
  then show "Book_toObject b ''totalCopies'' = None"
    by (rule Book_toObject_strict)
qed

theorem addBook_drops_totalCopies_witness:
  "addBook librarian input_111 empty_db = (Inr (hd (books catalog_2)), catalog_2) \<and>
   addBook_object input_111 ''totalCopies'' = Some (Num 2) \<and>
   Book_toObject (hd (books catalog_2)) ''totalCopies'' = None \<and>
   Book_toObject (hd (books catalog_2)) ''availableCopies'' = Some (Num 2) \<and>
   hd (books (fst (run ops_A))) \<in> set (books (fst (run ops_A))) \<and>
   Book_toObject (hd (books (fst (run ops_A)))) ''totalCopies'' = None"
proof -
  have h: "addBook librarian input_111 empty_db = (Inr (hd (books catalog_2)), catalog_2)"
    by (simp add: catalog_2_eq librarian_def input_111_def addBook_def Book_findOne_isbn_def
          empty_db_def Book_create_def addBook_object_def input_object_def bookSchema_def
          Book_fields_def Let_def)
  have c: "copies input_111 = 2"
    by (simp add: input_111_def)
  have a: "Book_toObject (hd (books catalog_2)) ''availableCopies'' = Some (Num 2)"
    by (simp add: catalog_2_eq Book_toObject_def)
  have m: "hd (books (fst (run ops_A))) \<in> set (books (fst (run ops_A)))"
    by (simp add: run_ops_A)
  note t = addBook_drops_totalCopies [OF h, of ops_A]
  from t c have 1: "addBook_object input_111 ''totalCopies'' = Some (Num 2)"
    by simp
  from t have 2: "Book_toObject (hd (books catalog_2)) ''totalCopies'' = None"
    by blast
  from t m have 3: "Book_toObject (hd (books (fst (run ops_A)))) ''totalCopies'' = None"
    by blast
  from h 1 2 a m 3 show ?thesis
    by (intro conjI)
qed

subsection \<open>Borrowing and returning\<close>

lemma find_append:
  "find P (xs @ ys) = (case find P xs of None \<Rightarrow> find P ys | Some x \<Rightarrow> Some x)"
  by (induction xs) simp_all

lemma borrowBook_Inr:
  assumes "borrowBook c bookId now s = (Inr r, s')"
  shows "\<exists>m b bk. userId c = Some (Oid m) \<and> bookId = Oid b \<and>
           Book_findById b s = Some bk \<and> 0 < availableCopies bk \<and>
           r = \<lparr>Borrowing_id = nextId s, member' = m, book = b, borrowDate = now,
                 returnDate = None, returned = False\<rparr> \<and>
           s' = s\<lparr>books := map (\<lambda>x. if Book_id x = b
                            then x\<lparr>availableCopies := availableCopies bk - 1\<rparr> else x) (books s),
                  borrowings := borrowings s @ [r], nextId := Suc (nextId s)\<rparr>"
proof -
  from assms obtain m b bk where h: "userId c = Some (Oid m)" "bookId = Oid b"
      "Book_findById b s = Some bk" "0 < availableCopies bk"
      "Borrowing_findOne m b False s = None"
    by (auto simp add: borrowBook_def split: option.splits ID.splits if_splits)
  from h(3) have "Book_id bk = b"
    by (rule Book_findById_id)
  with h assms show ?thesis
    by (intro exI [of _ m] exI [of _ b] exI [of _ bk])
       (auto simp add: borrowBook_def Borrowing_create_def Book_save_def Let_def)
qed

lemma returnBook_Inr:
  assumes "returnBook c (Oid rid) now s = (Inr r', s')"
  shows "\<exists>r bk. Borrowing_findById rid s = Some r \<and> userId c = Some (Oid (member' r)) \<and>
           \<not> returned r \<and> r' = r\<lparr>returned := True, returnDate := Some now\<rparr> \<and>
           Book_findById (book r) s = Some bk \<and>
           s' = s\<lparr>borrowings := map (\<lambda>x. if Borrowing_id x = rid
                      then x\<lparr>returned := True, returnDate := Some now\<rparr> else x) (borrowings s),
                  books := map (\<lambda>x. if Book_id x = book r
                      then x\<lparr>availableCopies := availableCopies bk + 1\<rparr> else x) (books s)\<rparr>"
proof -
  from returnBook_Inr_owner [OF assms] obtain r
    where r: "Borrowing_findById rid s = Some r" "userId c = Some (Oid (member' r))"
      "\<not> returned r" "r' = r\<lparr>returned := True, returnDate := Some now\<rparr>"
    by auto
  from r(1) have id: "Borrowing_id r = rid"
    by (rule Borrowing_findById_id)
  have keep: "Book_findById i (Borrowing_save d s) = Book_findById i s" for i d
    by (simp add: Book_findById_def Borrowing_save_def)
  from assms r obtain bk where bk: "Book_findById (book r) s = Some bk"
    by (auto simp add: returnBook_def Let_def keep split: option.splits)
  then have bk_id: "Book_id bk = book r"
    by (rule Book_findById_id)
  from assms r bk have "s' = Book_save (bk\<lparr>availableCopies := availableCopies bk + 1\<rparr>)
      (Borrowing_save (r\<lparr>returned := True, returnDate := Some now\<rparr>) s)"
    by (simp add: returnBook_def Let_def keep)
  with id bk_id have "s' = s\<lparr>borrowings := map (\<lambda>x. if Borrowing_id x = rid
                      then x\<lparr>returned := True, returnDate := Some now\<rparr> else x) (borrowings s),
                  books := map (\<lambda>x. if Book_id x = book r
                      then x\<lparr>availableCopies := availableCopies bk + 1\<rparr> else x) (books s)\<rparr>"
    by (simp add: Borrowing_save_def Book_save_def)
  with r bk show ?thesis
    by blast
qed

text \<open>
  C5. In a database that a sequential run has produced, let a \<^verbatim>\<open>borrowBook\<close> call resolve
  to a borrowing and let the \<^verbatim>\<open>returnBook\<close> call for that borrowing resolve next. Then the
  books are as before the borrow, in particular the book's available copies; the borrowings
  are those before the borrow and one more, the borrowing of this round trip, which is
  returned and carries its \<^verbatim>\<open>returnDate\<close>; and both calls were made by the same member.
\<close>

theorem borrow_return_roundtrip:
  assumes "borrowBook c1 bookId t1 (fst (run ops)) = (Inr r, s1)"
    and "returnBook c2 (Oid (Borrowing_id r)) t2 s1 = (Inr r', s2)"
  shows "books s2 = books (fst (run ops)) \<and>
         borrowings s2 = borrowings (fst (run ops)) @ [r'] \<and>
         r' = r\<lparr>returned := True, returnDate := Some t2\<rparr> \<and>
         returned r' \<and> returnDate r' = Some t2 \<and>
         userId c2 = userId c1 \<and> userId c1 = Some (Oid (member' r')) \<and>
         bookId = Oid (book r')"
proof -
  define s where "s = fst (run ops)"
  have "consistent (s, snd (run ops))"
    using consistent_run [of ops] by (simp add: s_def)
  note inv = consistentD [OF this]
  from borrowBook_Inr [OF assms(1)] obtain m b bk
    where c1: "userId c1 = Some (Oid m)" and b: "bookId = Oid b"
      and found: "Book_findById b s = Some bk"
      and r: "r = \<lparr>Borrowing_id = nextId s, member' = m, book = b, borrowDate = t1,
                 returnDate = None, returned = False\<rparr>"
      and s1: "s1 = s\<lparr>books := map (\<lambda>x. if Book_id x = b
                            then x\<lparr>availableCopies := availableCopies bk - 1\<rparr> else x) (books s),
                  borrowings := borrowings s @ [r], nextId := Suc (nextId s)\<rparr>"
    unfolding s_def by blast
  have fresh: "\<forall>x \<in> set (borrowings s). Borrowing_id x \<noteq> nextId s"
    using inv(4) by fastforce
  then have "find (\<lambda>x. Borrowing_id x = nextId s) (borrowings s) = None"
    by (simp add: find_None_iff)
  then have look: "Borrowing_findById (nextId s) s1 = Some r"
    by (simp add: Borrowing_findById_def s1 r find_append)
  from r have rid: "Borrowing_id r = nextId s" "book r = b" "member' r = m"
    by simp_all
  from returnBook_Inr [OF assms(2)] look rid obtain bk'
    where c2: "userId c2 = Some (Oid m)"
      and r': "r' = r\<lparr>returned := True, returnDate := Some t2\<rparr>"
      and found': "Book_findById b s1 = Some bk'"
      and s2: "s2 = s1\<lparr>borrowings := map (\<lambda>x. if Borrowing_id x = nextId s
                      then x\<lparr>returned := True, returnDate := Some t2\<rparr> else x) (borrowings s1),
                  books := map (\<lambda>x. if Book_id x = b
                      then x\<lparr>availableCopies := availableCopies bk' + 1\<rparr> else x) (books s1)\<rparr>"
    by auto
  from found have bk_id: "Book_id bk = b"
    by (rule Book_findById_id)
  have "Book_findById b s1 = Some (bk\<lparr>availableCopies := availableCopies bk - 1\<rparr>)"
    using found bk_id by (simp add: s1 Book_findById_def find_map_upd)
  with found' have bk': "availableCopies bk' + 1 = availableCopies bk"
    by auto
  have old: "map (\<lambda>x. if Borrowing_id x = nextId s
      then x\<lparr>returned := True, returnDate := Some t2\<rparr> else x) (borrowings s) = borrowings s"
    using fresh by (rule map_unchanged)
  have "x\<lparr>availableCopies := availableCopies bk\<rparr> = x"
    if "x \<in> set (books s)" "Book_id x = b" for x
  proof -
    from inv(1) found that have "x = bk"
      by (rule Book_findById_unique)
    then show ?thesis
      by simp
  qed
  then have books: "map (\<lambda>x. if Book_id x = b
      then x\<lparr>availableCopies := availableCopies bk' + 1\<rparr> else x) (books s1) = books s"
    by (simp add: s1 bk' comp_def map_idI)
  from old rid r' have "borrowings s2 = borrowings s @ [r']"
    by (simp add: s2 s1)
  moreover from books have "books s2 = books s"
    by (simp add: s2)
  ultimately show ?thesis
    using c1 c2 b r' rid by (simp add: s_def)
qed


theorem borrow_return_roundtrip_witness:
  "borrowBook M1 (Oid 0) 1000 (fst (run ops_C)) = (Inr loan_20_days, lent_1) \<and>
   returnBook M1 (Oid (Borrowing_id loan_20_days)) 2000 lent_1 =
     (Inr (loan_20_days\<lparr>returned := True, returnDate := Some 2000\<rparr>), returned_1) \<and>
   books returned_1 = books (fst (run ops_C)) \<and>
   borrowings returned_1 =
     borrowings (fst (run ops_C)) @ [loan_20_days\<lparr>returned := True, returnDate := Some 2000\<rparr>]"
proof -
  have b: "borrowBook M1 (Oid 0) 1000 (fst (run ops_C)) = (Inr loan_20_days, lent_1)"
    by (simp add: run_ops_C lent_1_eq catalog_1_eq loan_20_days_def M1_def borrowBook_def
          Book_findById_def Borrowing_findOne_def Borrowing_create_def Book_save_def Let_def)
  have r: "returnBook M1 (Oid (Borrowing_id loan_20_days)) 2000 lent_1 =
      (Inr (loan_20_days\<lparr>returned := True, returnDate := Some 2000\<rparr>), returned_1)"
    by (simp add: returned_1_eq lent_1_eq loan_20_days_def M1_def returnBook_def
          Book_findById_def Borrowing_findById_def Borrowing_save_def Book_save_def Let_def)
  from borrow_return_roundtrip [OF b r] b r show ?thesis
    by simp
qed

subsection \<open>Overdue days\<close>

lemma day_ms: "(1000 * 60 * 60 * 24 :: real) = real_of_int 86400000"
  by simp

lemma ceiling_days: "\<lceil>real_of_int d / (1000 * 60 * 60 * 24)\<rceil> = - ((- d) div 86400000)"
  unfolding day_ms by (rule ceiling_divide_eq_div)

lemma daysOverdue_active:
  assumes "\<not> returned r"
  shows "daysOverdue r today =
     max 0 (\<lceil>real_of_int \<bar>today - borrowDate r\<bar> / (1000 * 60 * 60 * 24)\<rceil> - 14)"
proof -
  have m: "(if D > 14 then D - 14 else 0) = max 0 (D - 14)" for D :: int
    by (simp add: max_def)
  from assms show ?thesis
    unfolding daysOverdue_def Let_def m by (simp only: if_True simp_thms)
qed

lemma daysOverdue_formula:
  assumes "\<not> returned r" and "borrowDate r \<le> today + 14 * 86400000"
  shows "daysOverdue r today =
     max 0 (\<lceil>real_of_int (today - borrowDate r) / (1000 * 60 * 60 * 24)\<rceil> - 14)"
proof (cases "borrowDate r \<le> today")
  case True
  then have "\<bar>today - borrowDate r\<bar> = today - borrowDate r"
    by simp
  with daysOverdue_active [OF assms(1), of today] show ?thesis
    by (simp only:)
next
  case False
  with assms(2) have ahead: "\<bar>today - borrowDate r\<bar> \<le> 14 * 86400000"
    and behind: "today - borrowDate r \<le> 0"
    by simp_all
  from ahead have "- ((- \<bar>today - borrowDate r\<bar>) div 86400000) \<le> 14"
    by linarith
  moreover from behind have "- ((- (today - borrowDate r)) div 86400000) \<le> 0"
    by linarith
  ultimately show ?thesis
    unfolding daysOverdue_active [OF assms(1)] ceiling_days by linarith
qed

text \<open>
  C7. \<^verbatim>\<open>borrowDate\<close> is the clock reading at the creation of the borrowing, and
  \<^verbatim>\<open>daysOverdue\<close> reads the clock later. For every borrowing whose date is not more than 14
  days after the clock reading, \<^verbatim>\<open>daysOverdue\<close> is
  \<open>max 0 (\<lceil>(today - borrowDate) in days\<rceil> - 14)\<close> when the borrowing is active and 0 when it
  is returned; so it is for every borrowing \<^verbatim>\<open>borrowBook\<close> has created at an earlier
  reading. A returned borrowing is never overdue, and an active borrowing made exactly 20 days
  ago is 6 days overdue.
\<close>

theorem daysOverdue_value:
  "(borrowDate r \<le> today + 14 * (1000 * 60 * 60 * 24) \<longrightarrow>
      daysOverdue r today =
        (if returned r then 0
         else max 0 (\<lceil>real_of_int (today - borrowDate r) / (1000 * 60 * 60 * 24)\<rceil> - 14))) \<and>
   (returned r \<longrightarrow> daysOverdue r today = 0) \<and>
   (\<not> returned r \<and> today - borrowDate r = 20 * (1000 * 60 * 60 * 24) \<longrightarrow>
      daysOverdue r today = 6) \<and>
   (\<forall>c bookId now s s'. borrowBook c bookId now s = (Inr r, s') \<and> now \<le> today \<longrightarrow>
      daysOverdue r today =
        max 0 (\<lceil>real_of_int (today - now) / (1000 * 60 * 60 * 24)\<rceil> - 14))"
proof (intro conjI impI allI)
  show zero: "daysOverdue r today = 0" if "returned r"
    using that by (simp add: daysOverdue_def)
  show "daysOverdue r today =
        (if returned r then 0
         else max 0 (\<lceil>real_of_int (today - borrowDate r) / (1000 * 60 * 60 * 24)\<rceil> - 14))"
    if "borrowDate r \<le> today + 14 * (1000 * 60 * 60 * 24)"
  proof (cases "returned r")
    case True
    with zero show ?thesis by simp
  next
    case False
    moreover from that have "borrowDate r \<le> today + 14 * 86400000"
      by simp
    ultimately have "daysOverdue r today =
        max 0 (\<lceil>real_of_int (today - borrowDate r) / (1000 * 60 * 60 * 24)\<rceil> - 14)"
      by (rule daysOverdue_formula)
    with False show ?thesis
      by (simp only: if_False)
  qed
  show "daysOverdue r today = 6"
    if "\<not> returned r \<and> today - borrowDate r = 20 * (1000 * 60 * 60 * 24)"
  proof -
    from that have "\<bar>today - borrowDate r\<bar> = 1728000000"
      by simp
    with that show ?thesis
      by (simp add: daysOverdue_def Let_def ceiling_days)
  qed
  fix c bookId now s s'
  assume a: "borrowBook c bookId now s = (Inr r, s') \<and> now \<le> today"
  with borrowBook_Inr [of c bookId now s r s']
  have r: "\<not> returned r" "borrowDate r = now"
    by auto
  with a have "borrowDate r \<le> today + 14 * 86400000"
    by simp
  with r(1) have "daysOverdue r today =
      max 0 (\<lceil>real_of_int (today - borrowDate r) / (1000 * 60 * 60 * 24)\<rceil> - 14)"
    by (rule daysOverdue_formula)
  with r(2) show "daysOverdue r today =
      max 0 (\<lceil>real_of_int (today - now) / (1000 * 60 * 60 * 24)\<rceil> - 14)"
    by (simp only:)
qed

theorem daysOverdue_value_witness:
  "borrowBook M1 (Oid 0) 1000 catalog_1 = (Inr loan_20_days, lent_1) \<and>
   (1000 :: int) \<le> 1728001000 \<and>
   \<not> returned loan_20_days \<and>
   borrowDate loan_20_days \<le> 1728001000 + 14 * (1000 * 60 * 60 * 24) \<and>
   1728001000 - borrowDate loan_20_days = 20 * (1000 * 60 * 60 * 24) \<and>
   daysOverdue loan_20_days 1728001000 = 6 \<and>
   daysOverdue loan_20_days 1728001000 =
     max 0 (\<lceil>real_of_int (1728001000 - 1000) / (1000 * 60 * 60 * 24)\<rceil> - 14) \<and>
   returned (loan_20_days\<lparr>returned := True\<rparr>) \<and>
   daysOverdue (loan_20_days\<lparr>returned := True\<rparr>) 1728001000 = 0"
proof -
  have b: "borrowBook M1 (Oid 0) 1000 catalog_1 = (Inr loan_20_days, lent_1)"
    by (simp add: lent_1_eq catalog_1_eq loan_20_days_def M1_def borrowBook_def
          Book_findById_def Borrowing_findOne_def Borrowing_create_def Book_save_def Let_def)
  have h: "borrowDate loan_20_days \<le> 1728001000 + 14 * (1000 * 60 * 60 * 24)"
    and d: "\<not> returned loan_20_days \<and>
      1728001000 - borrowDate loan_20_days = 20 * (1000 * 60 * 60 * 24)"
    by (simp_all add: loan_20_days_def)
  note t = daysOverdue_value [of loan_20_days 1728001000]
  from t d have six: "daysOverdue loan_20_days 1728001000 = 6"
    by blast
  from t b have "daysOverdue loan_20_days 1728001000 =
      max 0 (\<lceil>real_of_int (1728001000 - 1000) / (1000 * 60 * 60 * 24)\<rceil> - 14)"
    by force
  moreover have ret: "returned (loan_20_days\<lparr>returned := True\<rparr>)"
    by simp
  moreover from daysOverdue_value [of "loan_20_days\<lparr>returned := True\<rparr>" 1728001000] ret
  have "daysOverdue (loan_20_days\<lparr>returned := True\<rparr>) 1728001000 = 0"
    by blast
  ultimately show ?thesis
    using b h d six by (intro conjI) simp_all
qed

subsection \<open>Two borrow requests\<close>

lemma borrow_step_alone:
  "interleave b q1 q2 [False, False, False, False] (Start, t2, s) =
     (Finished (fst (borrowBook \<lparr>userId = Some (Oid (req_member q1))\<rparr> (Oid b) (req_now q1) s)),
      t2,
      snd (borrowBook \<lparr>userId = Some (Oid (req_member q1))\<rparr> (Oid b) (req_now q1) s))"
  by (simp add: borrowBook_def Borrowing_create_def Let_def split: option.splits)

lemma borrow_step_ok:
  assumes "borrow_step m b now t s = (t', s')"
    and "task_ok b s t" and "task_ok b s u"
    and "\<exists>bk. Book_findById b s = Some bk \<and> 0 \<le> availableCopies bk"
  shows "task_ok b s' t' \<and> task_ok b s' u \<and>
         (\<exists>bk. Book_findById b s' = Some bk \<and> 0 \<le> availableCopies bk)"
proof -
  have grow: "task_ok b (s\<lparr>borrowings := borrowings s @ [r], nextId := n\<rparr>) u" for r n
    using assms(3) by (induction b s u rule: task_ok.induct) simp_all
  have save: "task_ok b (Book_save d s) u" for d
    using assms(3) by (induction b s u rule: task_ok.induct) (simp_all add: Book_save_def)
  show ?thesis
  proof (cases t)
    case Start
    with assms show ?thesis
      by (auto simp add: split: option.splits if_splits dest: Book_findById_id)
  next
    case (HaveBook d)
    with assms show ?thesis
      by (auto split: option.splits)
  next
    case (MayBorrow d)
    with assms(1) have t': "t' = Created (d\<lparr>availableCopies := availableCopies d - 1\<rparr>)
          \<lparr>Borrowing_id = nextId s, member' = m, book = b, borrowDate = now,
            returnDate = None, returned = False\<rparr>"
      and s': "s' = s\<lparr>borrowings := borrowings s @
          [\<lparr>Borrowing_id = nextId s, member' = m, book = b, borrowDate = now,
            returnDate = None, returned = False\<rparr>], nextId := Suc (nextId s)\<rparr>"
      by (simp_all add: Borrowing_create_def Let_def)
    have "Book_findById b s' = Book_findById b s"
      by (simp add: s' Book_findById_def)
    with assms(2,4) MayBorrow grow show ?thesis
      by (simp add: t' s')
  next
    case (Created d r)
    with assms(1) have t': "t' = Finished (Inr r)" and s': "s' = Book_save d s"
      by simp_all
    from assms(2) Created have d: "Book_id d = b" "0 \<le> availableCopies d"
      and r: "r \<in> set (borrowings s)" "book r = b" "\<not> returned r"
      by simp_all
    from assms(4) d have "\<exists>bk. Book_findById b s' = Some bk \<and> 0 \<le> availableCopies bk"
      by (auto simp add: s' Book_findById_save)
    moreover from r have "task_ok b s' t'"
      by (simp add: t' s' Book_save_def)
    ultimately show ?thesis
      using save by (simp add: s')
  next
    case (Finished res)
    with assms show ?thesis
      by simp
  qed
qed

lemma interleave_ok:
  assumes "interleave b q1 q2 sched (t1, t2, s) = (t1', t2', s')"
    and "task_ok b s t1" and "task_ok b s t2"
    and "\<exists>bk. Book_findById b s = Some bk \<and> 0 \<le> availableCopies bk"
  shows "task_ok b s' t1' \<and> task_ok b s' t2' \<and>
         (\<exists>bk. Book_findById b s' = Some bk \<and> 0 \<le> availableCopies bk)"
  using assms
proof (induction sched arbitrary: t1 t2 s)
  case Nil
  then show ?case by simp
next
  case (Cons first sched)
  show ?case
  proof (cases first)
    case False
    obtain u s1 where st: "borrow_step (req_member q1) b (req_now q1) t1 s = (u, s1)"
      by (cases "borrow_step (req_member q1) b (req_now q1) t1 s")
    from borrow_step_ok [OF st Cons.prems(2,3,4)]
    have "task_ok b s1 u" "task_ok b s1 t2"
      "\<exists>bk. Book_findById b s1 = Some bk \<and> 0 \<le> availableCopies bk"
      by simp_all
    moreover from Cons.prems(1) False st
    have "interleave b q1 q2 sched (u, t2, s1) = (t1', t2', s')"
      by simp
    ultimately show ?thesis
      by (rule Cons.IH [rotated])
  next
    case True
    obtain u s1 where st: "borrow_step (req_member q2) b (req_now q2) t2 s = (u, s1)"
      by (cases "borrow_step (req_member q2) b (req_now q2) t2 s")
    from borrow_step_ok [OF st Cons.prems(3,2,4)]
    have "task_ok b s1 t1" "task_ok b s1 u"
      "\<exists>bk. Book_findById b s1 = Some bk \<and> 0 \<le> availableCopies bk"
      by simp_all
    moreover from Cons.prems(1) True st
    have "interleave b q1 q2 sched (t1, u, s1) = (t1', t2', s')"
      by simp
    ultimately show ?thesis
      by (rule Cons.IH [rotated])
  qed
qed


text \<open>
  C6, as amended. Take a book with one available copy and a member without an active
  borrowing of it. When two \<^verbatim>\<open>borrowBook\<close> calls run one after the other, this member's
  first, the first resolves and the second fails with \<^verbatim>\<open>NO_COPIES_AVAILABLE\<close>, and one
  borrowing was created. When the database steps of two requests interleave in any order,
  the available copies never go below 0 and every request that has resolved has its active
  borrowing stored. (Nothing makes the steps of one request atomic: both can resolve.)
\<close>

theorem borrowBook_last_copy:
  assumes "Book_findById b s = Some bk" and "availableCopies bk = 1"
    and "\<not> (\<exists>r \<in> set (borrowings s). member' r = m1 \<and> book r = b \<and> \<not> returned r)"
  shows "(\<exists>r s1. borrowBook \<lparr>userId = Some (Oid m1)\<rparr> (Oid b) n1 s = (Inr r, s1) \<and>
           borrowBook \<lparr>userId = Some (Oid m2)\<rparr> (Oid b) n2 s1 =
             (Inl (AppError NO_COPIES_AVAILABLE), s1) \<and>
           Book_findById b s1 = Some (bk\<lparr>availableCopies := 0\<rparr>) \<and>
           borrowings s1 = borrowings s @ [r]) \<and>
         (\<forall>q1 q2 sched t1 t2 s'.
            interleave b q1 q2 sched (Start, Start, s) = (t1, t2, s') \<longrightarrow>
              (\<exists>bk'. Book_findById b s' = Some bk' \<and> 0 \<le> availableCopies bk') \<and>
              (\<forall>r. t1 = Finished (Inr r) \<or> t2 = Finished (Inr r) \<longrightarrow>
                 r \<in> set (borrowings s') \<and> book r = b \<and> \<not> returned r))"
proof (intro conjI allI impI)
  from assms(3) have "Borrowing_findOne m1 b False s = None"
    by (auto simp add: Borrowing_findOne_def find_None_iff)
  with assms(1,2) obtain r s1
    where first: "borrowBook \<lparr>userId = Some (Oid m1)\<rparr> (Oid b) n1 s = (Inr r, s1)"
    by (simp add: borrowBook_def Borrowing_create_def Let_def)
  from borrowBook_Inr [OF first] assms(1)
  have s1: "borrowings s1 = borrowings s @ [r]"
    "s1 = s\<lparr>books := map (\<lambda>x. if Book_id x = b
                            then x\<lparr>availableCopies := availableCopies bk - 1\<rparr> else x) (books s),
                  borrowings := borrowings s @ [r], nextId := Suc (nextId s)\<rparr>"
    by auto
  from assms(1) have "Book_id bk = b"
    by (rule Book_findById_id)
  with assms(1) s1(2)
  have "Book_findById b s1 = Some (bk\<lparr>availableCopies := availableCopies bk - 1\<rparr>)"
    by (simp add: Book_findById_def find_map_upd)
  note s1 = s1(1) this
  from s1(2) assms(2) have none: "Book_findById b s1 = Some (bk\<lparr>availableCopies := 0\<rparr>)"
    by simp
  then have "borrowBook \<lparr>userId = Some (Oid m2)\<rparr> (Oid b) n2 s1 =
      (Inl (AppError NO_COPIES_AVAILABLE), s1)"
    by (simp add: borrowBook_def)
  with first s1(1) none
  show "\<exists>r s1. borrowBook \<lparr>userId = Some (Oid m1)\<rparr> (Oid b) n1 s = (Inr r, s1) \<and>
           borrowBook \<lparr>userId = Some (Oid m2)\<rparr> (Oid b) n2 s1 =
             (Inl (AppError NO_COPIES_AVAILABLE), s1) \<and>
           Book_findById b s1 = Some (bk\<lparr>availableCopies := 0\<rparr>) \<and>
           borrowings s1 = borrowings s @ [r]"
    by blast
next
  fix q1 q2 sched t1 t2 s'
  assume run: "interleave b q1 q2 sched (Start, Start, s) = (t1, t2, s')"
  from assms(1,2) have "\<exists>bk. Book_findById b s = Some bk \<and> 0 \<le> availableCopies bk"
    by simp
  moreover have "task_ok b s Start"
    by simp
  ultimately have ok: "task_ok b s' t1 \<and> task_ok b s' t2 \<and>
      (\<exists>bk. Book_findById b s' = Some bk \<and> 0 \<le> availableCopies bk)"
    using interleave_ok [OF run] by blast
  then show "\<exists>bk'. Book_findById b s' = Some bk' \<and> 0 \<le> availableCopies bk'"
    by simp
  fix r
  assume "t1 = Finished (Inr r) \<or> t2 = Finished (Inr r)"
  with ok show "r \<in> set (borrowings s')" "book r = b" "\<not> returned r"
    by auto
qed

lemma alternating_run:
  "interleave 0 request_1 request_2 alternating (Start, Start, catalog_1) =
     (Finished (Inr \<lparr>Borrowing_id = 1, member' = 1, book = 0, borrowDate = 1000,
                     returnDate = None, returned = False\<rparr>),
      Finished (Inr \<lparr>Borrowing_id = 2, member' = 2, book = 0, borrowDate = 1001,
                     returnDate = None, returned = False\<rparr>),
      \<lparr>books = [\<lparr>Book_id = 0, title = ''Dune'', author = ''Herbert'', category = None,
                 isbn = Some ''111'', availableCopies = 0,
                others = Map.empty\<rparr>],
       borrowings = [\<lparr>Borrowing_id = 1, member' = 1, book = 0, borrowDate = 1000,
                      returnDate = None, returned = False\<rparr>,
                     \<lparr>Borrowing_id = 2, member' = 2, book = 0, borrowDate = 1001,
                      returnDate = None, returned = False\<rparr>],
       nextId = 3\<rparr>)"
  by (simp add: alternating_def request_1_def request_2_def catalog_1_eq Book_findById_def
        Borrowing_findOne_def Borrowing_create_def Book_save_def Let_def)

theorem borrowBook_last_copy_witness:
  "Book_findById 0 catalog_1 = Some (hd (books catalog_1)) \<and>
   availableCopies (hd (books catalog_1)) = 1 \<and>
   \<not> (\<exists>r \<in> set (borrowings catalog_1). member' r = 1 \<and> book r = 0 \<and> \<not> returned r) \<and>
   (\<exists>r s1. borrowBook \<lparr>userId = Some (Oid 1)\<rparr> (Oid 0) 1000 catalog_1 = (Inr r, s1) \<and>
      borrowBook \<lparr>userId = Some (Oid 2)\<rparr> (Oid 0) 1001 s1 =
        (Inl (AppError NO_COPIES_AVAILABLE), s1)) \<and>
   (\<exists>t1 t2 s'. interleave 0 request_1 request_2 alternating (Start, Start, catalog_1) =
        (t1, t2, s') \<and>
      (\<exists>bk'. Book_findById 0 s' = Some bk' \<and> 0 \<le> availableCopies bk'))"
proof -
  have h1: "Book_findById 0 catalog_1 = Some (hd (books catalog_1))"
    and h2: "availableCopies (hd (books catalog_1)) = 1"
    and h3: "\<not> (\<exists>r \<in> set (borrowings catalog_1).
        member' r = 1 \<and> book r = 0 \<and> \<not> returned r)"
    by (simp_all add: catalog_1_eq Book_findById_def)
  note t = borrowBook_last_copy [OF h1 h2 h3, of 1000 2 1001]
  from t have a: "\<exists>r s1. borrowBook \<lparr>userId = Some (Oid 1)\<rparr> (Oid 0) 1000 catalog_1 =
        (Inr r, s1) \<and>
      borrowBook \<lparr>userId = Some (Oid 2)\<rparr> (Oid 0) 1001 s1 =
        (Inl (AppError NO_COPIES_AVAILABLE), s1)"
    by blast
  obtain t1 t2 s' where run:
    "interleave 0 request_1 request_2 alternating (Start, Start, catalog_1) = (t1, t2, s')"
    using alternating_run by blast
  with t have "\<exists>bk'. Book_findById 0 s' = Some bk' \<and> 0 \<le> availableCopies bk'"
    by blast
  with run have b: "\<exists>t1 t2 s'.
      interleave 0 request_1 request_2 alternating (Start, Start, catalog_1) = (t1, t2, s') \<and>
      (\<exists>bk'. Book_findById 0 s' = Some bk' \<and> 0 \<le> availableCopies bk')"
    by blast
  from h1 h2 h3 a b show ?thesis
    by (intro conjI)
qed

text \<open>
  The claim as stated fails: with one copy available and the steps of two requests
  alternating, both requests resolve, and two active borrowings face one copy.
\<close>

theorem borrowBook_both_resolve:
  "map availableCopies (books catalog_1) = [1] \<and>
   fst (interleave 0 request_1 request_2 alternating (Start, Start, catalog_1)) =
     Finished (Inr \<lparr>Borrowing_id = 1, member' = 1, book = 0, borrowDate = 1000,
                    returnDate = None, returned = False\<rparr>) \<and>
   fst (snd (interleave 0 request_1 request_2 alternating (Start, Start, catalog_1))) =
     Finished (Inr \<lparr>Borrowing_id = 2, member' = 2, book = 0, borrowDate = 1001,
                    returnDate = None, returned = False\<rparr>) \<and>
   map availableCopies
     (books (snd (snd (interleave 0 request_1 request_2 alternating
        (Start, Start, catalog_1))))) = [0] \<and>
   map returned
     (borrowings (snd (snd (interleave 0 request_1 request_2 alternating
        (Start, Start, catalog_1))))) = [False, False]"
  by (simp add: alternating_run) (simp add: catalog_1_eq)

end
